theory Spec2Isabelle
  imports Complex_Main "HOL-Library.Word"
begin

section \<open>Arrays of 8-bit samples\<close>

text \<open>
  The webcam filter \<^verbatim>\<open>facemesh_filter.py\<close> works on NumPy arrays of \<^verbatim>\<open>uint8\<close>.
  An image of shape \<open>(h, w, c)\<close> is a list of \<open>h\<close> rows, each a list of \<open>w\<close> pixels,
  each a list of \<open>c\<close> channel samples (OpenCV order: blue, green, red, alpha).
  \<^verbatim>\<open>cv2.imdecode\<close> yields a two-dimensional array for a single-channel file.
\<close>

type_synonym byte = "8 word"
type_synonym pixel = "byte list"
type_synonym raster = "pixel list list"

datatype ndarray = Arr2 "byte list list" | Arr3 raster

datatype error = FileNotFoundError | IndexError | ValueError | CvError

definition height :: "'a list list \<Rightarrow> nat" where
  "height a = length a"

definition width :: "'a list list \<Rightarrow> nat" where
  "width a = (case a of [] \<Rightarrow> 0 | row # _ \<Rightarrow> length row)"

definition channels :: "raster \<Rightarrow> nat" where
  "channels a = (case a of (p # _) # _ \<Rightarrow> length p | _ \<Rightarrow> 0)"

definition shape2 :: "'a list list \<Rightarrow> nat \<times> nat" where
  "shape2 a = (height a, width a)"

text \<open>
  A raster is well formed when it has at least one row and one column, all rows have
  the same length and all pixels have \<open>c\<close> channels: what a NumPy array of shape
  \<open>(h, w, c)\<close> with \<open>h, w > 0\<close> is by construction.
\<close>

definition wf_raster :: "nat \<Rightarrow> raster \<Rightarrow> bool" where
  "wf_raster c a \<longleftrightarrow>
     a \<noteq> [] \<and> hd a \<noteq> [] \<and>
     list_all (\<lambda>row. length row = length (hd a) \<and> list_all (\<lambda>p. length p = c) row) a"

subsection \<open>Python slices\<close>

text \<open>
  \<^verbatim>\<open>xs[i:j]\<close>: a negative bound counts from the end, and every bound is clamped to
  the list, so a slice never raises.
\<close>

definition norm_index :: "nat \<Rightarrow> int \<Rightarrow> nat" where
  "norm_index n i = (if i < 0 then nat (max 0 (i + int n)) else min (nat i) n)"

definition py_slice :: "'a list \<Rightarrow> int \<Rightarrow> int \<Rightarrow> 'a list" where
  "py_slice xs i j =
     (let a = norm_index (length xs) i; b = norm_index (length xs) j
      in take (b - a) (drop a xs))"

definition slice2 :: "'a list list \<Rightarrow> int \<Rightarrow> int \<Rightarrow> int \<Rightarrow> int \<Rightarrow> 'a list list" where
  "slice2 a r1 r2 c1 c2 = map (\<lambda>row. py_slice row c1 c2) (py_slice a r1 r2)"

text \<open>
  \<^verbatim>\<open>a[r1:r2, c1:c2] = b\<close> writes \<open>b\<close> over the selected block; NumPy raises
  \<^verbatim>\<open>ValueError\<close> when the shapes do not fit.
\<close>

definition set_slice2 ::
  "'a list list \<Rightarrow> int \<Rightarrow> int \<Rightarrow> int \<Rightarrow> int \<Rightarrow> 'a list list \<Rightarrow> error + 'a list list" where
  "set_slice2 a r1 r2 c1 c2 b =
     (if shape2 (slice2 a r1 r2 c1 c2) \<noteq> shape2 b then Inl ValueError
      else
        let i = norm_index (length a) r1 in
        Inr (take i a
             @ map2 (\<lambda>row brow.
                      let j = norm_index (length row) c1
                      in take j row @ brow @ drop (j + length brow) row)
                 (take (length b) (drop i a)) b
             @ drop (i + length b) a))"

section \<open>float64 arithmetic\<close>

text \<open>
  NumPy and Python compute with IEEE 754 binary64: the exact result of
  \<open>+\<close>, \<open>-\<close>, \<open>*\<close>, \<open>/\<close> and the square root, rounded to the nearest number with a
  53-bit significand, ties to the even significand. A finite float is a real
  number, so the operations are functions on \<open>real\<close> followed by the rounding \<open>fl\<close>.
  Every quantity of the program is far from the overflow and the subnormal range,
  which are left out: the exponent of \<open>fl\<close> is unbounded.
\<close>

function ilog2 :: "real \<Rightarrow> nat" where
  "ilog2 x = (if x < 2 then 0 else Suc (ilog2 (x / 2)))"
  by pat_completeness auto
termination
  by (relation "measure (\<lambda>x. nat \<lfloor>x\<rfloor>)") (auto, linarith)

function clog2 :: "real \<Rightarrow> nat" where
  "clog2 x = (if x \<le> 1 then 0 else Suc (clog2 (x / 2)))"
  by pat_completeness auto
termination
proof (relation "measure (\<lambda>x. nat \<lceil>x\<rceil>)")
  show "wf (measure (\<lambda>x::real. nat \<lceil>x\<rceil>))" by simp
next
  fix x :: real
  assume "\<not> x \<le> 1"
  then have "2 \<le> \<lceil>x\<rceil>" by linarith
  moreover have "x \<le> of_int \<lceil>x\<rceil>" by (rule le_of_int_ceiling)
  ultimately have "x / 2 \<le> of_int \<lceil>x\<rceil> - 1" by linarith
  then have "\<lceil>x / 2\<rceil> < \<lceil>x\<rceil>" by (simp add: ceiling_less_iff)
  with \<open>2 \<le> \<lceil>x\<rceil>\<close> show "(x / 2, x) \<in> measure (\<lambda>x. nat \<lceil>x\<rceil>)" by simp
qed

text \<open>The binary exponent \<open>e\<close> of a positive real: \<open>2\<^sup>e \<le> x < 2\<^sup>e\<^sup>+\<^sup>1\<close>.\<close>

definition expo :: "real \<Rightarrow> int" where
  "expo x = (if 1 \<le> x then int (ilog2 x) else - int (clog2 (1 / x)))"

definition round_even :: "real \<Rightarrow> int" where
  "round_even y =
     (let f = \<lfloor>y\<rfloor>; d = y - of_int f
      in if d < 1 / 2 then f else if 1 / 2 < d then f + 1
         else if even f then f else f + 1)"

definition fl :: "real \<Rightarrow> real" where
  "fl x = (if x = 0 then 0
           else let q = 2 powi (expo \<bar>x\<bar> - 52)
                in sgn x * of_int (round_even (\<bar>x\<bar> / q)) * q)"

text \<open>The relative error of one rounding is at most the unit roundoff.\<close>

definition unit_roundoff :: real where
  "unit_roundoff = 1 / 2 ^ 53"

definition fadd :: "real \<Rightarrow> real \<Rightarrow> real" where
  "fadd a b = fl (a + b)"

definition fsub :: "real \<Rightarrow> real \<Rightarrow> real" where
  "fsub a b = fl (a - b)"

definition fmul :: "real \<Rightarrow> real \<Rightarrow> real" where
  "fmul a b = fl (a * b)"

definition fdiv :: "real \<Rightarrow> real \<Rightarrow> real" where
  "fdiv a b = fl (a / b)"

definition fsqrt :: "real \<Rightarrow> real" where
  "fsqrt a = fl (sqrt a)"

text \<open>Conversions: an integer to float64 rounds; float64 to an integer truncates.\<close>

definition float_of_int :: "int \<Rightarrow> real" where
  "float_of_int n = fl (of_int n)"

definition float_of_u8 :: "byte \<Rightarrow> real" where
  "float_of_u8 b = fl (real (unat b))"

definition py_int :: "real \<Rightarrow> int" where
  "py_int v = (if 0 \<le> v then \<lfloor>v\<rfloor> else \<lceil>v\<rceil>)"

definition to_uint8 :: "real \<Rightarrow> byte" where
  "to_uint8 v = word_of_int (py_int v)"

section \<open>Overlay asset loader\<close>

text \<open>
  \<^verbatim>\<open>load_sunglasses_with_alpha(image_path)\<close>. The file system, \<^verbatim>\<open>cv2.imdecode\<close>
  and the luminance of \<^verbatim>\<open>cv2.cvtColor(..., COLOR_BGR2GRAY)\<close> are outside the
  repository and are parameters. \<open>derive_alpha\<close> is the body of the function after
  the decoding (lines 18 to 36); an exception is a value \<open>Inl\<close>, the sentinel
  \<^verbatim>\<open>None\<close> is \<open>Inr None\<close>.
\<close>

definition brightness_threshold :: byte where
  "brightness_threshold = 240"

definition luminance :: "(byte \<Rightarrow> byte \<Rightarrow> byte \<Rightarrow> byte) \<Rightarrow> pixel \<Rightarrow> byte" where
  "luminance bgr2gray p = bgr2gray (p ! 0) (p ! 1) (p ! 2)"

definition derive_alpha :: "(byte \<Rightarrow> byte \<Rightarrow> byte \<Rightarrow> byte) \<Rightarrow> ndarray \<Rightarrow> error + raster" where
  "derive_alpha bgr2gray img =
     (case img of
        Arr2 _ \<Rightarrow> Inl IndexError
      | Arr3 a \<Rightarrow>
          if channels a = 3 then
            Inr (map (map (\<lambda>p.
                   let q = p @ [255];
                       white = brightness_threshold < luminance bgr2gray (take 3 q)
                   in q[3 := (if white then 0 else 255)])) a)
          else if channels a < 3 then Inl CvError
          else
            Inr (map (map (\<lambda>p.
                   let white = brightness_threshold < luminance bgr2gray (take 3 p)
                   in p[3 := (if white then 0 else p ! 3)])) a))"

definition load_sunglasses_with_alpha ::
  "(string \<rightharpoonup> byte list) \<Rightarrow> (byte list \<Rightarrow> ndarray option) \<Rightarrow> (byte \<Rightarrow> byte \<Rightarrow> byte \<Rightarrow> byte)
     \<Rightarrow> string \<Rightarrow> error + raster option" where
  "load_sunglasses_with_alpha fs imdecode bgr2gray image_path =
     (case fs image_path of
        None \<Rightarrow> Inl FileNotFoundError
      | Some file_bytes \<Rightarrow>
          (case imdecode file_bytes of
             None \<Rightarrow> Inr None
           | Some img \<Rightarrow>
               (case derive_alpha bgr2gray img of
                  Inl e \<Rightarrow> Inl e
                | Inr out \<Rightarrow> Inr (Some out))))"

text \<open>
  OpenCV's 8-bit luminance, for concrete runs: the weights 0.114, 0.587 and 0.299 of
  blue, green and red in 15-bit fixed point, rounded.
\<close>

definition cv_bgr2gray :: "byte \<Rightarrow> byte \<Rightarrow> byte \<Rightarrow> byte" where
  "cv_bgr2gray b g r =
     word_of_nat ((unat b * 3735 + unat g * 19235 + unat r * 9798 + 16384) div 32768)"

definition one_file :: "string \<Rightarrow> byte list \<Rightarrow> (string \<rightharpoonup> byte list)" where
  "one_file name content = (\<lambda>p. if p = name then Some content else None)"

definition decode_as :: "ndarray option \<Rightarrow> byte list \<Rightarrow> ndarray option" where
  "decode_as img file_bytes = img"

section \<open>Alpha compositing\<close>

text \<open>
  \<^verbatim>\<open>overlay_image_alpha(background, overlay, x, y)\<close>. The arrays are objects of a
  store, so that the write into the background is visible through every reference
  to it; the function returns the reference it was given.
\<close>

type_synonym ref = nat
type_synonym store = "ref \<Rightarrow> raster"

text \<open>
  \<open>outside\<close> is the two early-return tests (lines 46 to 49), \<open>dest_rect\<close> the clipped
  rectangle of the background (lines 52 to 55), \<open>src_rect\<close> the matching rectangle of the
  overlay (lines 58 to 61), \<open>blend_channel\<close> one sample of line 71 and \<open>blend_pixel\<close>
  its three colour samples. Reading channel 3 of an overlay with fewer than four channels
  raises \<^verbatim>\<open>IndexError\<close>; operands that do not broadcast raise \<^verbatim>\<open>ValueError\<close>.
\<close>

definition outside :: "int \<Rightarrow> int \<Rightarrow> int \<Rightarrow> int \<Rightarrow> int \<Rightarrow> int \<Rightarrow> bool" where
  "outside bg_w bg_h w h x y \<longleftrightarrow> (x \<ge> bg_w \<or> y \<ge> bg_h) \<or> (x + w \<le> 0 \<or> y + h \<le> 0)"

definition dest_rect :: "int \<Rightarrow> int \<Rightarrow> int \<Rightarrow> int \<Rightarrow> int \<Rightarrow> int \<Rightarrow> int \<times> int \<times> int \<times> int" where
  "dest_rect bg_w bg_h w h x y = (max 0 x, max 0 y, min bg_w (x + w), min bg_h (y + h))"

definition src_rect :: "int \<Rightarrow> int \<Rightarrow> int \<times> int \<times> int \<times> int \<Rightarrow> int \<times> int \<times> int \<times> int" where
  "src_rect x y d =
     (case d of (x1, y1, x2, y2) \<Rightarrow>
        let overlay_x1 = x1 - x; overlay_y1 = y1 - y
        in (overlay_x1, overlay_y1, overlay_x1 + (x2 - x1), overlay_y1 + (y2 - y1)))"

definition blend_channel :: "byte \<Rightarrow> byte \<Rightarrow> byte \<Rightarrow> byte" where
  "blend_channel ov a bg =
     (let alpha = fdiv (float_of_u8 a) 255
      in to_uint8 (fadd (fmul (float_of_u8 ov) alpha) (fmul (float_of_u8 bg) (fsub 1 alpha))))"

definition blend_pixel :: "pixel \<Rightarrow> pixel \<Rightarrow> pixel" where
  "blend_pixel op bp = map2 (\<lambda>ov bg. blend_channel ov (op ! 3) bg) (take 3 op) bp"

definition overlay_image_alpha ::
  "store \<Rightarrow> ref \<Rightarrow> ref \<Rightarrow> int \<Rightarrow> int \<Rightarrow> error + (ref \<times> store)" where
  "overlay_image_alpha s background overlay x y =
     (let h = int (height (s overlay)); w = int (width (s overlay));
          bg_h = int (height (s background)); bg_w = int (width (s background))
      in
        if outside bg_w bg_h w h x y then Inr (background, s)
        else
          case dest_rect bg_w bg_h w h x y of (x1, y1, x2, y2) \<Rightarrow>
          case src_rect x y (x1, y1, x2, y2) of (overlay_x1, overlay_y1, overlay_x2, overlay_y2) \<Rightarrow>
            if channels (s overlay) < 4 then Inl IndexError
            else
              let src = slice2 (s overlay) overlay_y1 overlay_y2 overlay_x1 overlay_x2;
                  roi = slice2 (s background) y1 y2 x1 x2
              in
                if shape2 src \<noteq> shape2 roi \<or> channels (s background) \<noteq> 3 then Inl ValueError
                else
                  case set_slice2 (s background) y1 y2 x1 x2 (map2 (map2 blend_pixel) src roi) of
                    Inl e \<Rightarrow> Inl e
                  | Inr bg' \<Rightarrow> Inr (background, s(background := bg')))"

text \<open>A store of two arrays, for concrete runs: the background at 0, the overlay elsewhere.\<close>

definition two_rasters :: "raster \<Rightarrow> raster \<Rightarrow> store" where
  "two_rasters bg ov = (\<lambda>r. if r = 0 then bg else ov)"

text \<open>The array behind the returned reference, after the call.\<close>

definition result_raster :: "error + (ref \<times> store) \<Rightarrow> raster option" where
  "result_raster res = (case res of Inl e \<Rightarrow> None | Inr (r, s') \<Rightarrow> Some (s' r))"

text \<open>The exact value of the blending formula, in the reals.\<close>

definition blend_exact :: "byte \<Rightarrow> byte \<Rightarrow> byte \<Rightarrow> real" where
  "blend_exact ov a bg =
     real (unat ov) * (real (unat a) / 255) + real (unat bg) * (1 - real (unat a) / 255)"

section \<open>Transform parameters\<close>

text \<open>
  The per-face computation of \<^verbatim>\<open>main\<close> (lines 186 to 198) and
  \<^verbatim>\<open>rotate_and_scale_image\<close>. \<open>arctan2\<close> and \<open>degrees\<close> are the real functions that
  \<^verbatim>\<open>np.arctan2\<close> and \<^verbatim>\<open>np.degrees\<close> compute in float64; \<open>eye_angle\<close> is used for eye
  points on one row or one column only, where the float64 results are these values
  exactly. \<^verbatim>\<open>cv2.getRotationMatrix2D\<close> and \<^verbatim>\<open>cv2.warpAffine\<close> are outside the repository
  and are parameters of the functions that call them.
\<close>

type_synonym point = "int \<times> int"

definition eye_distance :: "point \<Rightarrow> point \<Rightarrow> real" where
  "eye_distance left_eye_center right_eye_center =
     fsqrt (float_of_int ((fst right_eye_center - fst left_eye_center)\<^sup>2
                          + (snd right_eye_center - snd left_eye_center)\<^sup>2))"

definition arctan2 :: "real \<Rightarrow> real \<Rightarrow> real" where
  "arctan2 y x =
     (if 0 < x then arctan (y / x)
      else if x < 0 then (if 0 \<le> y then arctan (y / x) + pi else arctan (y / x) - pi)
      else if 0 < y then pi / 2 else if y < 0 then - (pi / 2) else 0)"

definition degrees :: "real \<Rightarrow> real" where
  "degrees r = r * 180 / pi"

definition eye_angle :: "point \<Rightarrow> point \<Rightarrow> real" where
  "eye_angle left_eye_center right_eye_center =
     degrees (arctan2 (of_int (snd right_eye_center - snd left_eye_center))
                      (of_int (fst right_eye_center - fst left_eye_center)))"

text \<open>A division of a float by the integer 0 gives no number: \<open>None\<close>.\<close>

definition sunglasses_scale :: "point \<Rightarrow> point \<Rightarrow> nat \<Rightarrow> real option" where
  "sunglasses_scale left_eye_center right_eye_center original_sunglasses_width =
     (if original_sunglasses_width = 0 then None
      else Some (fdiv (fmul (eye_distance left_eye_center right_eye_center) 2.5)
                      (float_of_int (int original_sunglasses_width))))"













section \<open>Properties of the loader\<close>

subsection \<open>Shapes and the two branches of the derivation\<close>

lemma wf_raster_channels: "wf_raster c a \<Longrightarrow> channels a = c"
  unfolding wf_raster_def channels_def
  by (cases a; cases "hd a") (auto simp: list_all_iff)

lemma wf_raster_pixel: "wf_raster c a \<Longrightarrow> row \<in> set a \<Longrightarrow> p \<in> set row \<Longrightarrow> length p = c"
  unfolding wf_raster_def by (auto simp: list_all_iff)

lemma wf_raster_row: "wf_raster c a \<Longrightarrow> row \<in> set a \<Longrightarrow> length row = width a"
  unfolding wf_raster_def width_def by (cases a) (auto simp: list_all_iff)

lemma wf_raster_pos: "wf_raster c a \<Longrightarrow> 0 < height a \<and> 0 < width a"
  unfolding wf_raster_def width_def height_def by (cases a) auto

lemma wf_raster_map:
  assumes "wf_raster c a" and "\<And>p. length p = c \<Longrightarrow> length (f p) = d"
  shows "wf_raster d (map (map f) a)"
  using assms unfolding wf_raster_def
  by (cases a) (auto simp: list_all_iff hd_map)

lemma shape2_map: "shape2 (map (map f) a) = shape2 a"
  unfolding shape2_def height_def width_def by (cases a) auto

lemma luminance_take3: "luminance g (take 3 p) = luminance g p"
  by (simp add: luminance_def)

lemma luminance_append: "length p = 3 \<Longrightarrow> luminance g (p @ q) = luminance g p"
  by (simp add: luminance_def nth_append)

lemma luminance_update3: "luminance g (p[3 := v]) = luminance g p"
  by (simp add: luminance_def)

lemma derive_alpha_bgr:
  assumes "wf_raster 3 a"
  shows "derive_alpha g (Arr3 a) =
           Inr (map (map (\<lambda>p. p @ [if brightness_threshold < luminance g p then 0 else 255])) a)"
proof -
  have ch: "channels a = 3" using assms by (rule wf_raster_channels)
  have "map (map (\<lambda>p. let q = p @ [255]; white = brightness_threshold < luminance g (take 3 q)
                       in q[3 := (if white then 0 else 255)])) a
        = map (map (\<lambda>p. p @ [if brightness_threshold < luminance g p then 0 else 255])) a"
  proof (intro map_cong refl)
    fix row p assume "row \<in> set a" "p \<in> set row"
    then have "length p = 3" using assms by (rule wf_raster_pixel[rotated])
    then show "(let q = p @ [255]; white = brightness_threshold < luminance g (take 3 q)
                in q[3 := (if white then 0 else 255)])
               = p @ [if brightness_threshold < luminance g p then 0 else 255]"
      by (simp add: Let_def luminance_take3 luminance_append list_update_append)
  qed
  then show ?thesis by (simp add: derive_alpha_def ch)
qed

lemma derive_alpha_bgra:
  assumes "wf_raster c a" and "4 \<le> c"
  shows "derive_alpha g (Arr3 a) =
           Inr (map (map (\<lambda>p. p[3 := (if brightness_threshold < luminance g p then 0 else p ! 3)])) a)"
proof -
  have ch: "channels a = c" using assms(1) by (rule wf_raster_channels)
  then show ?thesis using assms(2)
    by (simp add: derive_alpha_def Let_def luminance_take3)
qed

lemma derive_alpha_few:
  assumes "wf_raster c a" and "c < 3"
  shows "derive_alpha g (Arr3 a) = Inl CvError"
  using wf_raster_channels[OF assms(1)] assms(2) by (simp add: derive_alpha_def)

lemma nth2_map: "i < height a \<Longrightarrow> j < length (a ! i) \<Longrightarrow> map (map f) a ! i ! j = f (a ! i ! j)"
  by (simp add: height_def)

lemma wf_raster_nth_row: "wf_raster c a \<Longrightarrow> i < height a \<Longrightarrow> length (a ! i) = width a"
  by (simp add: wf_raster_row height_def)

lemma wf_raster_nth_pixel:
  "wf_raster c a \<Longrightarrow> i < height a \<Longrightarrow> j < width a \<Longrightarrow> length (a ! i ! j) = c"
  using wf_raster_pixel [of c a "a ! i" "a ! i ! j"] wf_raster_nth_row [of c a i]
  by (simp add: height_def)


lemma map2d_fix:
  assumes "\<And>row p. row \<in> set a \<Longrightarrow> p \<in> set row \<Longrightarrow> u (f p) = f p"
  shows "map (map u) (map (map f) a) = map (map f) a"
proof -
  have "map (map u) (map (map f) a) = map (map (\<lambda>p. u (f p))) a"
    by (simp add: comp_def)
  also have "\<dots> = map (map f) a"
    using assms by (auto intro!: map_cong)
  finally show ?thesis .
qed

lemma derive_alpha_again:
  assumes "wf_raster c a" and "derive_alpha g (Arr3 a) = Inr out"
  shows "derive_alpha g (Arr3 out) = Inr out"
proof -
  let ?u = "\<lambda>p. p[3 := (if brightness_threshold < luminance g p then 0 else p ! 3)]"
  consider "c = 3" | "c < 3" | "4 \<le> c" by linarith
  then show ?thesis
  proof cases
    case 1
    let ?f = "\<lambda>p. p @ [if brightness_threshold < luminance g p then 0 else 255]"
    have wf3: "wf_raster 3 a" using assms(1) 1 by simp
    have out: "out = map (map ?f) a"
      using assms(2) derive_alpha_bgr[OF wf3, of g] by simp
    have wf4: "wf_raster 4 out"
      unfolding out using wf3 by (rule wf_raster_map) simp
    have "map (map ?u) (map (map ?f) a) = map (map ?f) a"
    proof (rule map2d_fix)
      fix row p assume "row \<in> set a" "p \<in> set row"
      then have "length p = 3" using wf3 by (rule wf_raster_pixel[rotated])
      then show "?u (?f p) = ?f p"
        by (simp add: luminance_append list_update_append nth_append)
    qed
    then show ?thesis
      using derive_alpha_bgra[OF wf4, of g] by (simp add: out)
  next
    case 2
    then show ?thesis using derive_alpha_few[OF assms(1), of g] assms(2) by simp
  next
    case 3
    have out: "out = map (map ?u) a"
      using assms(2) derive_alpha_bgra[OF assms(1) 3, of g] by simp
    have wfo: "wf_raster c out"
      unfolding out using assms(1) by (rule wf_raster_map) simp
    have "map (map ?u) (map (map ?u) a) = map (map ?u) a"
    proof (rule map2d_fix)
      fix row p assume "row \<in> set a" "p \<in> set row"
      then have "length p = c" using assms(1) by (rule wf_raster_pixel[rotated])
      then show "?u (?u p) = ?u p"
        using 3 by (simp add: luminance_update3)
    qed
    then show ?thesis
      using derive_alpha_bgra[OF wfo 3, of g] by (simp add: out)
  qed
qed


subsection \<open>Synthesized transparency of a three-channel source\<close>

text \<open>
  Claim C3, as the code has it. For a decodable source without a transparency channel
  (three channels), the loader returns a four-channel image of the same size. If every
  pixel's luminance is at or below the brightness threshold 240, the synthesized channel
  is 255 (opaque) at every pixel; if every pixel's luminance is strictly above the
  threshold, it is 0 (transparent) at every pixel. The test of the code is
  \<^verbatim>\<open>gray > 240\<close>, so a pixel exactly at the threshold is opaque.
\<close>

theorem loader_synthesized_alpha:
  assumes "fs path = Some file_bytes"
    and "imdecode file_bytes = Some (Arr3 a)"
    and "wf_raster 3 a"
  shows "\<exists>out. load_sunglasses_with_alpha fs imdecode g path = Inr (Some out)
           \<and> wf_raster 4 out \<and> shape2 out = shape2 a
           \<and> ((\<forall>row\<in>set a. \<forall>p\<in>set row. luminance g p \<le> brightness_threshold)
                 \<longrightarrow> (\<forall>row\<in>set out. \<forall>p\<in>set row. p ! 3 = 255))
           \<and> ((\<forall>row\<in>set a. \<forall>p\<in>set row. brightness_threshold < luminance g p)
                 \<longrightarrow> (\<forall>row\<in>set out. \<forall>p\<in>set row. p ! 3 = 0))"
proof -
  let ?f = "\<lambda>p. p @ [if brightness_threshold < luminance g p then 0 else 255]"
  let ?out = "map (map ?f) a"
  have len: "\<And>row p. row \<in> set a \<Longrightarrow> p \<in> set row \<Longrightarrow> length p = 3"
    using assms(3) by (rule wf_raster_pixel)
  have "load_sunglasses_with_alpha fs imdecode g path = Inr (Some ?out)"
    by (simp add: load_sunglasses_with_alpha_def assms(1,2) derive_alpha_bgr[OF assms(3)])
  moreover have "wf_raster 4 ?out"
    using assms(3) by (rule wf_raster_map) simp
  moreover have "shape2 ?out = shape2 a"
    by (rule shape2_map)
  moreover have "(\<forall>row\<in>set a. \<forall>p\<in>set row. luminance g p \<le> brightness_threshold)
                 \<longrightarrow> (\<forall>row\<in>set ?out. \<forall>p\<in>set row. p ! 3 = 255)"
    using len by (auto simp: nth_append not_less [symmetric])
  moreover have "(\<forall>row\<in>set a. \<forall>p\<in>set row. brightness_threshold < luminance g p)
                 \<longrightarrow> (\<forall>row\<in>set ?out. \<forall>p\<in>set row. p ! 3 = 0)"
    using len by (auto simp: nth_append)
  ultimately show ?thesis by blast
qed


theorem loader_synthesized_alpha_witness:
  "(\<exists>out. load_sunglasses_with_alpha (one_file ''sunglasses.png'' [])
             (decode_as (Some (Arr3 [[[10, 20, 30], [240, 240, 240]]]))) cv_bgr2gray ''sunglasses.png''
           = Inr (Some out) \<and> (\<forall>row\<in>set out. \<forall>p\<in>set row. p ! 3 = 255))
   \<and> (\<exists>out. load_sunglasses_with_alpha (one_file ''sunglasses.png'' [])
             (decode_as (Some (Arr3 [[[241, 241, 241], [255, 255, 255]]]))) cv_bgr2gray ''sunglasses.png''
           = Inr (Some out) \<and> (\<forall>row\<in>set out. \<forall>p\<in>set row. p ! 3 = 0))"
proof -
  have fs: "one_file ''sunglasses.png'' [] ''sunglasses.png'' = Some []"
    by (simp add: one_file_def)
  have d1: "decode_as (Some (Arr3 [[[10, 20, 30], [240, 240, 240]]])) [] = Some (Arr3 [[[10, 20, 30], [240, 240, 240]]])"
    by (simp add: decode_as_def)
  have d2: "decode_as (Some (Arr3 [[[241, 241, 241], [255, 255, 255]]])) [] = Some (Arr3 [[[241, 241, 241], [255, 255, 255]]])"
    by (simp add: decode_as_def)
  have w1: "wf_raster 3 [[[10, 20, 30], [240, 240, 240]]]"
    by (simp add: wf_raster_def)
  have w2: "wf_raster 3 [[[241, 241, 241], [255, 255, 255]]]"
    by (simp add: wf_raster_def)
  have l1: "\<forall>row\<in>set [[[10, 20, 30], [240, 240, 240 :: byte]]]. \<forall>p\<in>set row.
              luminance cv_bgr2gray p \<le> brightness_threshold"
    by (simp add: luminance_def cv_bgr2gray_def brightness_threshold_def)
  have l2: "\<forall>row\<in>set [[[241, 241, 241], [255, 255, 255 :: byte]]]. \<forall>p\<in>set row.
              brightness_threshold < luminance cv_bgr2gray p"
    by (simp add: luminance_def cv_bgr2gray_def brightness_threshold_def)
  from loader_synthesized_alpha
         [where fs = "one_file ''sunglasses.png'' []" and path = "''sunglasses.png''"
            and g = cv_bgr2gray and file_bytes = "[]"
            and a = "[[[10, 20, 30], [240, 240, 240]]]"
            and imdecode = "decode_as (Some (Arr3 [[[10, 20, 30], [240, 240, 240]]]))",
          OF fs d1 w1] l1
  have "\<exists>out. load_sunglasses_with_alpha (one_file ''sunglasses.png'' [])
             (decode_as (Some (Arr3 [[[10, 20, 30], [240, 240, 240]]]))) cv_bgr2gray ''sunglasses.png''
           = Inr (Some out) \<and> (\<forall>row\<in>set out. \<forall>p\<in>set row. p ! 3 = 255)"
    by blast
  moreover from loader_synthesized_alpha
         [where fs = "one_file ''sunglasses.png'' []" and path = "''sunglasses.png''"
            and g = cv_bgr2gray and file_bytes = "[]"
            and a = "[[[241, 241, 241], [255, 255, 255]]]"
            and imdecode = "decode_as (Some (Arr3 [[[241, 241, 241], [255, 255, 255]]]))",
          OF fs d2 w2] l2
  have "\<exists>out. load_sunglasses_with_alpha (one_file ''sunglasses.png'' [])
             (decode_as (Some (Arr3 [[[241, 241, 241], [255, 255, 255]]]))) cv_bgr2gray ''sunglasses.png''
           = Inr (Some out) \<and> (\<forall>row\<in>set out. \<forall>p\<in>set row. p ! 3 = 0)"
    by blast
  ultimately show ?thesis by blast
qed


text \<open>
  Claim C3 as stated says that a source entirely at or above the threshold becomes fully
  transparent. A one-pixel source of luminance exactly 240 is loaded fully opaque.
\<close>

theorem loader_threshold_counterexample:
  "luminance cv_bgr2gray [240, 240, 240] = brightness_threshold
   \<and> load_sunglasses_with_alpha (one_file ''sunglasses.png'' [])
        (decode_as (Some (Arr3 [[[240, 240, 240]]]))) cv_bgr2gray ''sunglasses.png''
      = Inr (Some [[[240, 240, 240, 255]]])"
  by (simp add: load_sunglasses_with_alpha_def one_file_def decode_as_def derive_alpha_def
      channels_def luminance_def cv_bgr2gray_def brightness_threshold_def)

subsection \<open>The transparency of every pixel, with or without a source channel\<close>

text \<open>
  Claim C4, as the code has it. For a decodable source of three or four channels the
  loader returns a four-channel image of the same size with the colour samples
  unchanged; a pixel whose luminance exceeds the threshold gets transparency 0; any other
  pixel gets 255 when the source had three channels, and keeps the transparency of the
  source when it had four.
\<close>

theorem loader_alpha_per_pixel:
  assumes "fs path = Some file_bytes"
    and "imdecode file_bytes = Some (Arr3 a)"
    and "wf_raster c a"
    and "c = 3 \<or> c = 4"
  shows "\<exists>out. load_sunglasses_with_alpha fs imdecode g path = Inr (Some out)
           \<and> wf_raster 4 out \<and> shape2 out = shape2 a
           \<and> (\<forall>i<height a. \<forall>j<width a.
                 take 3 (out ! i ! j) = take 3 (a ! i ! j)
                 \<and> out ! i ! j ! 3 =
                     (if brightness_threshold < luminance g (a ! i ! j) then 0
                      else if c = 3 then 255 else a ! i ! j ! 3))"
proof (cases "c = 3")
  case True
  let ?f = "\<lambda>p. p @ [if brightness_threshold < luminance g p then 0 else 255]"
  let ?out = "map (map ?f) a"
  have wf3: "wf_raster 3 a" using assms(3) True by simp
  have "load_sunglasses_with_alpha fs imdecode g path = Inr (Some ?out)"
    by (simp add: load_sunglasses_with_alpha_def assms(1,2) derive_alpha_bgr[OF wf3])
  moreover have "wf_raster 4 ?out"
    using wf3 by (rule wf_raster_map) simp
  moreover have "shape2 ?out = shape2 a"
    by (rule shape2_map)
  moreover have "\<forall>i<height a. \<forall>j<width a.
                 take 3 (?out ! i ! j) = take 3 (a ! i ! j)
                 \<and> ?out ! i ! j ! 3 =
                     (if brightness_threshold < luminance g (a ! i ! j) then 0
                      else if c = 3 then 255 else a ! i ! j ! 3)"
  proof (intro allI impI)
    fix i j assume ij: "i < height a" "j < width a"
    have "length (a ! i) = width a" using wf3 ij(1) by (rule wf_raster_nth_row)
    then have "?out ! i ! j = ?f (a ! i ! j)" using ij by (simp add: nth2_map)
    moreover have "length (a ! i ! j) = 3" using wf3 ij by (rule wf_raster_nth_pixel)
    ultimately show "take 3 (?out ! i ! j) = take 3 (a ! i ! j)
                 \<and> ?out ! i ! j ! 3 =
                     (if brightness_threshold < luminance g (a ! i ! j) then 0
                      else if c = 3 then 255 else a ! i ! j ! 3)"
      using True by (simp add: nth_append)
  qed
  ultimately show ?thesis by blast
next
  case False
  then have c4: "c = 4" using assms(4) by simp
  let ?f = "\<lambda>p. p[3 := (if brightness_threshold < luminance g p then 0 else p ! 3)]"
  let ?out = "map (map ?f) a"
  have wf4: "wf_raster 4 a" using assms(3) c4 by simp
  have "load_sunglasses_with_alpha fs imdecode g path = Inr (Some ?out)"
    by (simp add: load_sunglasses_with_alpha_def assms(1,2) derive_alpha_bgra[OF wf4])
  moreover have "wf_raster 4 ?out"
    using wf4 by (rule wf_raster_map) simp
  moreover have "shape2 ?out = shape2 a"
    by (rule shape2_map)
  moreover have "\<forall>i<height a. \<forall>j<width a.
                 take 3 (?out ! i ! j) = take 3 (a ! i ! j)
                 \<and> ?out ! i ! j ! 3 =
                     (if brightness_threshold < luminance g (a ! i ! j) then 0
                      else if c = 3 then 255 else a ! i ! j ! 3)"
  proof (intro allI impI)
    fix i j assume ij: "i < height a" "j < width a"
    have "length (a ! i) = width a" using wf4 ij(1) by (rule wf_raster_nth_row)
    then have "?out ! i ! j = ?f (a ! i ! j)" using ij by (simp add: nth2_map)
    moreover have "length (a ! i ! j) = 4" using wf4 ij by (rule wf_raster_nth_pixel)
    ultimately show "take 3 (?out ! i ! j) = take 3 (a ! i ! j)
                 \<and> ?out ! i ! j ! 3 =
                     (if brightness_threshold < luminance g (a ! i ! j) then 0
                      else if c = 3 then 255 else a ! i ! j ! 3)"
      using c4 by (simp add: take_update_cancel)
  qed
  ultimately show ?thesis by blast
qed


theorem loader_alpha_per_pixel_witness:
  "\<exists>out. load_sunglasses_with_alpha (one_file ''sunglasses.png'' [])
            (decode_as (Some (Arr3 [[[0, 0, 0, 100], [250, 250, 250, 77]]]))) cv_bgr2gray
            ''sunglasses.png'' = Inr (Some out)
         \<and> out ! 0 ! 0 ! 3 = 100 \<and> out ! 0 ! 1 ! 3 = 0"
proof -
  let ?a = "[[[0, 0, 0, 100], [250, 250, 250, 77 :: byte]]]"
  have fs: "one_file ''sunglasses.png'' [] ''sunglasses.png'' = Some []"
    by (simp add: one_file_def)
  have d: "decode_as (Some (Arr3 ?a)) [] = Some (Arr3 ?a)"
    by (simp add: decode_as_def)
  have w: "wf_raster 4 ?a"
    by (simp add: wf_raster_def)
  have c: "(4::nat) = 3 \<or> (4::nat) = 4" by simp
  have hw: "0 < height ?a" "0 < width ?a" "1 < width ?a"
    by (simp_all add: height_def width_def)
  have l: "\<not> brightness_threshold < luminance cv_bgr2gray (?a ! 0 ! 0)"
          "brightness_threshold < luminance cv_bgr2gray (?a ! 0 ! 1)"
    by (simp_all add: luminance_def cv_bgr2gray_def brightness_threshold_def)
  from loader_alpha_per_pixel
         [where fs = "one_file ''sunglasses.png'' []" and path = "''sunglasses.png''"
            and g = cv_bgr2gray and file_bytes = "[]" and a = ?a and c = 4
            and imdecode = "decode_as (Some (Arr3 ?a))", OF fs d w c]
  obtain out where o: "load_sunglasses_with_alpha (one_file ''sunglasses.png'' [])
            (decode_as (Some (Arr3 ?a))) cv_bgr2gray ''sunglasses.png'' = Inr (Some out)"
     and px: "\<forall>i<height ?a. \<forall>j<width ?a.
                 take 3 (out ! i ! j) = take 3 (?a ! i ! j)
                 \<and> out ! i ! j ! 3 =
                     (if brightness_threshold < luminance cv_bgr2gray (?a ! i ! j) then 0
                      else if (4::nat) = 3 then 255 else ?a ! i ! j ! 3)"
    by blast
  from px hw(1,2) have "out ! 0 ! 0 ! 3 = (if brightness_threshold < luminance cv_bgr2gray (?a ! 0 ! 0) then 0
                      else if (4::nat) = 3 then 255 else ?a ! 0 ! 0 ! 3)" by blast
  with l(1) have p0: "out ! 0 ! 0 ! 3 = 100" by simp
  from px hw(1,3) have "out ! 0 ! 1 ! 3 = (if brightness_threshold < luminance cv_bgr2gray (?a ! 0 ! 1) then 0
                      else if (4::nat) = 3 then 255 else ?a ! 0 ! 1 ! 3)" by blast
  with l(2) have p1: "out ! 0 ! 1 ! 3 = 0" by simp
  from o p0 p1 show ?thesis by blast
qed


text \<open>
  Claim C4 as stated makes every pixel below the threshold fully opaque whether or not
  the source had a transparency channel. A dark pixel of a four-channel source keeps its
  transparency 100.
\<close>

theorem loader_opaque_counterexample:
  "\<not> brightness_threshold < luminance cv_bgr2gray [0, 0, 0, 100]
   \<and> load_sunglasses_with_alpha (one_file ''sunglasses.png'' [])
        (decode_as (Some (Arr3 [[[0, 0, 0, 100]]]))) cv_bgr2gray ''sunglasses.png''
      = Inr (Some [[[0, 0, 0, 100]]])
   \<and> [0, 0, 0, 100 :: byte] ! 3 \<noteq> 255"
  by (simp add: load_sunglasses_with_alpha_def one_file_def decode_as_def derive_alpha_def
      channels_def luminance_def cv_bgr2gray_def brightness_threshold_def)

subsection \<open>Idempotence\<close>

text \<open>
  Claim C8. Loading an image that is itself the result of the loader (for a well-formed
  source of any channel count the loader accepts) returns that image unchanged.
\<close>

theorem alpha_derivation_idempotent:
  assumes "fs path = Some file_bytes"
    and "imdecode file_bytes = Some (Arr3 a)"
    and "wf_raster c a"
    and "load_sunglasses_with_alpha fs imdecode g path = Inr (Some out)"
    and "fs' path' = Some file_bytes'"
    and "imdecode' file_bytes' = Some (Arr3 out)"
  shows "load_sunglasses_with_alpha fs' imdecode' g path' = Inr (Some out)"
proof -
  from assms(4) have "derive_alpha g (Arr3 a) = Inr out"
    by (simp add: load_sunglasses_with_alpha_def assms(1,2) split: sum.splits)
  with assms(3) have "derive_alpha g (Arr3 out) = Inr out"
    by (rule derive_alpha_again)
  then show ?thesis
    by (simp add: load_sunglasses_with_alpha_def assms(5,6))
qed

theorem alpha_derivation_idempotent_witness:
  "load_sunglasses_with_alpha (one_file ''sunglasses.png'' [])
     (decode_as (Some (Arr3 [[[10, 20, 30], [250, 250, 250]]]))) cv_bgr2gray ''sunglasses.png''
     = Inr (Some [[[10, 20, 30, 255], [250, 250, 250, 0]]])
   \<and> load_sunglasses_with_alpha (one_file ''out.png'' [1])
     (decode_as (Some (Arr3 [[[10, 20, 30, 255], [250, 250, 250, 0]]]))) cv_bgr2gray ''out.png''
     = Inr (Some [[[10, 20, 30, 255], [250, 250, 250, 0]]])"
proof -
  let ?a = "[[[10, 20, 30], [250, 250, 250 :: byte]]]"
  let ?out = "[[[10, 20, 30, 255], [250, 250, 250, 0 :: byte]]]"
  have fs: "one_file ''sunglasses.png'' [] ''sunglasses.png'' = Some []"
    by (simp add: one_file_def)
  have d: "decode_as (Some (Arr3 ?a)) [] = Some (Arr3 ?a)"
    by (simp add: decode_as_def)
  have w: "wf_raster 3 ?a"
    by (simp add: wf_raster_def)
  have first: "load_sunglasses_with_alpha (one_file ''sunglasses.png'' [])
     (decode_as (Some (Arr3 ?a))) cv_bgr2gray ''sunglasses.png'' = Inr (Some ?out)"
    by (simp add: load_sunglasses_with_alpha_def one_file_def decode_as_def derive_alpha_def
        channels_def luminance_def cv_bgr2gray_def brightness_threshold_def)
  have fs': "one_file ''out.png'' [1] ''out.png'' = Some [1]"
    by (simp add: one_file_def)
  have d': "decode_as (Some (Arr3 ?out)) [1] = Some (Arr3 ?out)"
    by (simp add: decode_as_def)
  from alpha_derivation_idempotent
         [where fs = "one_file ''sunglasses.png'' []" and path = "''sunglasses.png''"
            and file_bytes = "[]" and imdecode = "decode_as (Some (Arr3 ?a))" and a = ?a
            and c = 3 and g = cv_bgr2gray and out = ?out
            and fs' = "one_file ''out.png'' [1]" and path' = "''out.png''"
            and file_bytes' = "[1]" and imdecode' = "decode_as (Some (Arr3 ?out))",
          OF fs d w first fs' d']
  show ?thesis using first by simp
qed


subsection \<open>The sentinel, the channel count and the exceptions\<close>

text \<open>
  Claim C10. The loader returns \<^verbatim>\<open>None\<close> exactly when the file is read and
  \<^verbatim>\<open>cv2.imdecode\<close> fails; a result decoded from an image of at most four channels has
  exactly four channels; a decoded two-dimensional (single-channel) array raises
  \<^verbatim>\<open>IndexError\<close> at \<^verbatim>\<open>img.shape[2]\<close>, not the sentinel; the loader returns an image
  for every well-formed three-dimensional array of at least three channels, and raises for
  fewer.
\<close>

theorem loader_sentinel_and_totality:
  "(load_sunglasses_with_alpha fs imdecode g path = Inr None
      \<longleftrightarrow> (\<exists>file_bytes. fs path = Some file_bytes \<and> imdecode file_bytes = None))
   \<and> (fs path = Some file_bytes \<and> imdecode file_bytes = Some (Arr3 a) \<and> wf_raster c a \<and> c \<le> 4
        \<and> load_sunglasses_with_alpha fs imdecode g path = Inr (Some out)
      \<longrightarrow> wf_raster 4 out \<and> channels out = 4)
   \<and> (fs path = Some file_bytes \<and> imdecode file_bytes = Some (Arr2 grey)
      \<longrightarrow> load_sunglasses_with_alpha fs imdecode g path = Inl IndexError)
   \<and> (fs path = Some file_bytes \<and> imdecode file_bytes = Some (Arr3 a) \<and> wf_raster c a \<and> 3 \<le> c
      \<longrightarrow> (\<exists>r. load_sunglasses_with_alpha fs imdecode g path = Inr (Some r)))
   \<and> (fs path = Some file_bytes \<and> imdecode file_bytes = Some (Arr3 a) \<and> wf_raster c a \<and> c < 3
      \<longrightarrow> load_sunglasses_with_alpha fs imdecode g path = Inl CvError)"
proof -
  have p1: "load_sunglasses_with_alpha fs imdecode g path = Inr None
      \<longleftrightarrow> (\<exists>file_bytes. fs path = Some file_bytes \<and> imdecode file_bytes = None)"
    by (auto simp: load_sunglasses_with_alpha_def split: option.splits sum.splits)
  have p2: "wf_raster 4 out \<and> channels out = 4" if h: "fs path = Some file_bytes \<and> imdecode file_bytes = Some (Arr3 a) \<and> wf_raster c a \<and> c \<le> 4
        \<and> load_sunglasses_with_alpha fs imdecode g path = Inr (Some out)"
  proof -
  from h have d: "derive_alpha g (Arr3 a) = Inr out"
    by (auto simp: load_sunglasses_with_alpha_def split: sum.splits)
  from h have wf: "wf_raster c a" and c4: "c \<le> 4" by simp_all
  consider "c = 3" | "c < 3" | "c = 4" using c4 by linarith
  then have "wf_raster 4 out"
  proof cases
    case 1
    then have wf3: "wf_raster 3 a" using wf by simp
    have "out = map (map (\<lambda>p. p @ [if brightness_threshold < luminance g p then 0 else 255])) a"
      using d derive_alpha_bgr[OF wf3, of g] by simp
    then show ?thesis using wf_raster_map[OF wf3, of _ 4] by simp
  next
    case 2
    then show ?thesis using derive_alpha_few[OF wf, of g] d by simp
  next
    case 3
    then have wf4: "wf_raster 4 a" using wf by simp
    have "out = map (map (\<lambda>p. p[3 := (if brightness_threshold < luminance g p then 0 else p ! 3)])) a"
      using d derive_alpha_bgra[OF wf4, of g] by simp
    then show ?thesis using wf_raster_map[OF wf4, of _ 4] by simp
  qed
  then show "wf_raster 4 out \<and> channels out = 4"
    by (simp add: wf_raster_channels)
  qed
  have p3: "load_sunglasses_with_alpha fs imdecode g path = Inl IndexError"
    if "fs path = Some file_bytes \<and> imdecode file_bytes = Some (Arr2 grey)"
    using that by (simp add: load_sunglasses_with_alpha_def derive_alpha_def)
  have p4: "\<exists>r. load_sunglasses_with_alpha fs imdecode g path = Inr (Some r)"
    if h: "fs path = Some file_bytes \<and> imdecode file_bytes = Some (Arr3 a) \<and> wf_raster c a \<and> 3 \<le> c"
  proof -
  from h have wf: "wf_raster c a" and c3: "3 \<le> c" by simp_all
  consider "c = 3" | "4 \<le> c" using c3 by linarith
  then have "\<exists>r. derive_alpha g (Arr3 a) = Inr r"
  proof cases
    case 1
    then have "wf_raster 3 a" using wf by simp
    then show ?thesis using derive_alpha_bgr[of a g] by simp
  next
    case 2
    then show ?thesis using derive_alpha_bgra[OF wf, of g] by simp
  qed
  then show "\<exists>r. load_sunglasses_with_alpha fs imdecode g path = Inr (Some r)"
    using h by (auto simp: load_sunglasses_with_alpha_def)
  qed
  have p5: "load_sunglasses_with_alpha fs imdecode g path = Inl CvError"
    if h: "fs path = Some file_bytes \<and> imdecode file_bytes = Some (Arr3 a) \<and> wf_raster c a \<and> c < 3"
  proof -
    from h have "derive_alpha g (Arr3 a) = Inl CvError"
      using derive_alpha_few[of c a g] by simp
    then show ?thesis
      using h by (simp add: load_sunglasses_with_alpha_def)
  qed
  from p1 p2 p3 p4 p5 show ?thesis by blast
qed

theorem loader_sentinel_and_totality_witness:
  "load_sunglasses_with_alpha (one_file ''sunglasses.png'' []) (decode_as None) cv_bgr2gray
      ''sunglasses.png'' = Inr None
   \<and> load_sunglasses_with_alpha (one_file ''sunglasses.png'' []) (decode_as (Some (Arr2 [[7]])))
      cv_bgr2gray ''sunglasses.png'' = Inl IndexError
   \<and> (\<exists>r. load_sunglasses_with_alpha (one_file ''sunglasses.png'' [])
            (decode_as (Some (Arr3 [[[1, 2, 3]]]))) cv_bgr2gray ''sunglasses.png'' = Inr (Some r)
          \<and> channels r = 4)
   \<and> load_sunglasses_with_alpha (one_file ''sunglasses.png'' [])
        (decode_as (Some (Arr3 [[[1, 2]]]))) cv_bgr2gray ''sunglasses.png'' = Inl CvError"
proof -
  let ?fs = "one_file ''sunglasses.png'' []"
  have fs: "?fs ''sunglasses.png'' = Some []"
    by (simp add: one_file_def)
  have w3: "wf_raster 3 [[[1, 2, 3]]]" and w2: "wf_raster 2 [[[1, 2]]]"
    by (simp_all add: wf_raster_def)
  have a: "load_sunglasses_with_alpha ?fs (decode_as None) cv_bgr2gray ''sunglasses.png'' = Inr None"
    using loader_sentinel_and_totality
            [where fs = ?fs and imdecode = "decode_as None" and g = cv_bgr2gray
               and path = "''sunglasses.png''"] fs
    by (simp add: decode_as_def)
  have b: "load_sunglasses_with_alpha ?fs (decode_as (Some (Arr2 [[7]]))) cv_bgr2gray
             ''sunglasses.png'' = Inl IndexError"
    using loader_sentinel_and_totality
            [where fs = ?fs and imdecode = "decode_as (Some (Arr2 [[7]]))" and g = cv_bgr2gray
               and path = "''sunglasses.png''" and file_bytes = "[]" and grey = "[[7]]"] fs
    by (simp add: decode_as_def)
  have c: "\<exists>r. load_sunglasses_with_alpha ?fs (decode_as (Some (Arr3 [[[1, 2, 3]]]))) cv_bgr2gray
             ''sunglasses.png'' = Inr (Some r) \<and> channels r = 4"
  proof -
    obtain r where r: "load_sunglasses_with_alpha ?fs (decode_as (Some (Arr3 [[[1, 2, 3]]])))
                         cv_bgr2gray ''sunglasses.png'' = Inr (Some r)"
      using loader_sentinel_and_totality
            [where fs = ?fs and imdecode = "decode_as (Some (Arr3 [[[1, 2, 3]]]))"
               and g = cv_bgr2gray and path = "''sunglasses.png''" and file_bytes = "[]"
               and a = "[[[1, 2, 3]]]" and c = 3] fs w3
      by (auto simp: decode_as_def)
    then have "channels r = 4"
      using loader_sentinel_and_totality
            [where fs = ?fs and imdecode = "decode_as (Some (Arr3 [[[1, 2, 3]]]))"
               and g = cv_bgr2gray and path = "''sunglasses.png''" and file_bytes = "[]"
               and a = "[[[1, 2, 3]]]" and c = 3 and out = r] fs w3
      by (simp add: decode_as_def)
    with r show ?thesis by blast
  qed
  have d: "load_sunglasses_with_alpha ?fs (decode_as (Some (Arr3 [[[1, 2]]]))) cv_bgr2gray
             ''sunglasses.png'' = Inl CvError"
    using loader_sentinel_and_totality
            [where fs = ?fs and imdecode = "decode_as (Some (Arr3 [[[1, 2]]]))" and g = cv_bgr2gray
               and path = "''sunglasses.png''" and file_bytes = "[]" and a = "[[[1, 2]]]" and c = 2]
          fs w2
    by (simp add: decode_as_def)
  from a b c d show ?thesis by blast
qed

section \<open>Properties of the float64 rounding\<close>

lemma ilog2_bounds: "1 \<le> x \<Longrightarrow> 2 ^ ilog2 x \<le> x \<and> x < 2 * 2 ^ ilog2 x"
proof (induction x rule: ilog2.induct)
  case (1 x)
  show ?case
  proof (cases "x < 2")
    case True
    with "1.prems" show ?thesis by (subst (1 2) ilog2.simps) simp
  next
    case False
    then have "1 \<le> x / 2" by simp
    with "1.IH" False have "2 ^ ilog2 (x / 2) \<le> x / 2 \<and> x / 2 < 2 * 2 ^ ilog2 (x / 2)" by simp
    with False show ?thesis by (subst (1 2) ilog2.simps) simp
  qed
qed

lemma clog2_bounds: "0 < x \<Longrightarrow> x \<le> 2 ^ clog2 x \<and> (1 < x \<longrightarrow> 2 ^ clog2 x < 2 * x)"
proof (induction x rule: clog2.induct)
  case (1 x)
  show ?case
  proof (cases "x \<le> 1")
    case True
    then show ?thesis by (subst (1 2) clog2.simps) simp
  next
    case False
    then have pos: "0 < x / 2" by simp
    with "1.IH" False have ih: "x / 2 \<le> 2 ^ clog2 (x / 2) \<and> (1 < x / 2 \<longrightarrow> 2 ^ clog2 (x / 2) < 2 * (x / 2))"
      by simp
    have c: "clog2 x = Suc (clog2 (x / 2))" using False by (subst clog2.simps) simp
    show ?thesis
    proof (cases "1 < x / 2")
      case True
      with ih show ?thesis unfolding c by simp
    next
      case False
      then have "clog2 (x / 2) = 0" by (subst clog2.simps) simp
      with \<open>\<not> x \<le> 1\<close> False show ?thesis unfolding c by simp
    qed
  qed
qed

lemma power_int_succ: "(2::real) powi (e + 1) = 2 powi e * 2"
  by (rule power_int_add_1) simp

lemma expo_bounds:
  assumes "0 < x"
  shows "2 powi expo x \<le> x \<and> x < 2 powi (expo x + 1)"
proof (cases "1 \<le> x")
  case True
  then have e: "expo x = int (ilog2 x)" by (simp add: expo_def)
  have p: "(2::real) powi expo x = 2 ^ ilog2 x" unfolding e by (rule power_int_of_nat)
  from ilog2_bounds[OF True] show ?thesis
    unfolding power_int_succ p by (simp add: mult.commute)
next
  case False
  define k where "k = clog2 (1 / x)"
  from False have e: "expo x = - int k" by (simp add: expo_def k_def)
  have p: "(2::real) powi expo x = 1 / 2 ^ k"
    unfolding e by (simp add: power_int_minus inverse_eq_divide)
  from assms have pos: "0 < 1 / x" by simp
  from False assms have gt: "1 < 1 / x" by simp
  from clog2_bounds[OF pos] gt
  have b: "1 / x \<le> 2 ^ k" "2 ^ k < 2 * (1 / x)" by (simp_all add: k_def)
  have kp: "(0::real) < 2 ^ k" by simp
  from b(1) have "1 \<le> 2 ^ k * x"
    using assms by (simp add: pos_divide_le_eq)
  then have lo: "1 / 2 ^ k \<le> x"
    using kp by (simp add: pos_divide_le_eq mult.commute)
  from b(2) have "2 ^ k * x < 2"
    using assms by (simp add: pos_less_divide_eq)
  then have hi: "x < 1 / 2 ^ k * 2"
    using kp by (simp add: pos_less_divide_eq mult.commute)
  show ?thesis
    unfolding power_int_succ p using lo hi by simp
qed

lemma round_even_err: "\<bar>of_int (round_even y) - y\<bar> \<le> 1 / 2"
  unfolding round_even_def Let_def by (auto; linarith)

lemma round_even_of_int: "round_even (of_int n) = n"
  by (simp add: round_even_def)

lemma round_even_nonneg: "0 \<le> y \<Longrightarrow> 0 \<le> round_even y"
  unfolding round_even_def Let_def by (auto; linarith)

lemma fl_zero: "fl 0 = 0"
  by (simp add: fl_def)

lemma fl_minus: "fl (- x) = - fl x"
  by (simp add: fl_def Let_def)

lemma fl_nonneg: "0 \<le> x \<Longrightarrow> 0 \<le> fl x"
  unfolding fl_def Let_def by (auto simp: round_even_nonneg sgn_if)

lemma fl_err: "\<bar>fl x - x\<bar> \<le> \<bar>x\<bar> / 2 ^ 53"
proof (cases "x = 0")
  case True
  then show ?thesis by (simp add: fl_zero)
next
  case False
  define e where "e = expo \<bar>x\<bar>"
  define q :: real where "q = 2 powi (e - 52)"
  define y where "y = \<bar>x\<bar> / q"
  have qpos: "0 < q" by (simp add: q_def)
  have ax: "\<bar>x\<bar> = y * q" using qpos by (simp add: y_def)
  have flx: "fl x = sgn x * of_int (round_even y) * q"
    using False by (simp add: fl_def Let_def e_def q_def y_def)
  have "x = sgn x * \<bar>x\<bar>" by (simp add: sgn_if)
  then have x_eq: "x = sgn x * (y * q)" by (simp only: ax)
  have "fl x - x = sgn x * ((of_int (round_even y) - y) * q)"
    unfolding flx by (subst (2) x_eq) (simp add: algebra_simps)
  then have "\<bar>fl x - x\<bar> = \<bar>of_int (round_even y) - y\<bar> * q"
    using False qpos by (simp add: abs_mult abs_sgn_eq)
  also have "\<dots> \<le> (1 / 2) * q"
    using round_even_err[of y] qpos by (intro mult_right_mono) simp_all
  also have "\<dots> = 2 powi e / 2 ^ 53"
    by (simp add: q_def power_int_diff)
  also have "\<dots> \<le> \<bar>x\<bar> / 2 ^ 53"
    using expo_bounds[of "\<bar>x\<bar>"] False by (simp add: e_def divide_right_mono)
  finally show ?thesis .
qed

lemma fl_of_int_small:
  assumes "\<bar>n\<bar> < 2 ^ 53"
  shows "fl (of_int n) = of_int n"
proof (cases "n = 0")
  case True
  then show ?thesis by (simp add: fl_zero)
next
  case False
  define x :: real where "x = of_int n"
  define e where "e = expo \<bar>x\<bar>"
  have xpos: "0 < \<bar>x\<bar>" using False by (simp add: x_def)
  have "2 powi e \<le> \<bar>x\<bar>" using expo_bounds[OF xpos] by (simp add: e_def)
  also have "\<bar>x\<bar> < 2 ^ 53"
  proof -
    have "\<bar>x\<bar> = of_int \<bar>n\<bar>" by (simp add: x_def)
    also have "\<dots> < of_int (2 ^ 53)" using assms by (simp only: of_int_less_iff)
    finally show ?thesis by simp
  qed
  finally have "(2::real) powi e < 2 powi 53" by simp
  then have "e < 53" by (rule power_int_le_imp_less_exp[rotated]) simp_all
  then have e52: "e \<le> 52" by simp
  define k where "k = nat (52 - e)"
  have "e - 52 = - int k" using e52 by (simp add: k_def)
  then have q: "(2::real) powi (e - 52) = 1 / 2 ^ k"
    by (simp add: power_int_minus inverse_eq_divide)
  have "\<bar>x\<bar> / 2 powi (e - 52) = of_int (\<bar>n\<bar> * 2 ^ k)"
    by (simp add: q x_def)
  then have r: "round_even (\<bar>x\<bar> / 2 powi (e - 52)) = \<bar>n\<bar> * 2 ^ k"
    by (simp only: round_even_of_int)
  have "fl x = sgn x * of_int (round_even (\<bar>x\<bar> / 2 powi (e - 52))) * 2 powi (e - 52)"
    using xpos by (simp add: fl_def Let_def e_def)
  also have "\<dots> = sgn x * of_int (\<bar>n\<bar> * 2 ^ k) * 2 powi (e - 52)"
    by (simp only: r)
  also have "\<dots> = sgn x * of_int (\<bar>n\<bar> * 2 ^ k) * (1 / 2 ^ k)"
    by (simp only: q)
  also have "\<dots> = sgn x * \<bar>x\<bar>" by (simp add: x_def)
  also have "\<dots> = x" by (simp add: sgn_if)
  finally show ?thesis by (simp add: x_def)
qed

lemma fl_of_nat_small: "n < 2 ^ 53 \<Longrightarrow> fl (real n) = real n"
  using fl_of_int_small[of "int n"] by simp

lemma fl_one: "fl 1 = 1"
  using fl_of_int_small[of 1] by simp

section \<open>Properties of the per-sample blend\<close>

text \<open>
  The model reads a sample as \<open>real (unat b)\<close>; the simplifier leaves that form alone.
\<close>

declare of_nat_unat [simp del]

lemma unat_byte_less: "unat (b :: byte) < 256"
  using unsigned_less[of b, where ?'a = nat] by simp

lemma float_of_u8_exact: "float_of_u8 b = real (unat b)"
  unfolding float_of_u8_def
  by (rule fl_of_nat_small) (use unat_byte_less[of b] in simp)

lemma py_int_of_nat: "py_int (real n) = int n"
  by (simp add: py_int_def)

lemma to_uint8_of_u8: "to_uint8 (real (unat b)) = b"
proof -
  have "word_of_int (int (unat b)) = b" by (simp add: of_nat_unat)
  then show ?thesis unfolding to_uint8_def py_int_of_nat .
qed

lemma blend_channel_opaque: "blend_channel ov 255 bg = ov"
proof -
  have a: "fdiv (float_of_u8 255) 255 = 1"
    by (simp add: fdiv_def float_of_u8_exact fl_one)
  have "fadd (fmul (float_of_u8 ov) 1) (fmul (float_of_u8 bg) (fsub 1 1)) = real (unat ov)"
    using float_of_u8_exact[of ov]
    by (simp add: fadd_def fmul_def fsub_def fl_zero float_of_u8_def)
  then show ?thesis
    unfolding blend_channel_def Let_def a by (simp only: to_uint8_of_u8)
qed

lemma blend_channel_transparent: "blend_channel ov 0 bg = bg"
proof -
  have a: "fdiv (float_of_u8 0) 255 = 0"
    by (simp add: fdiv_def float_of_u8_exact fl_zero)
  have "fadd (fmul (float_of_u8 ov) 0) (fmul (float_of_u8 bg) (fsub 1 0)) = real (unat bg)"
    using float_of_u8_exact[of bg]
    by (simp add: fadd_def fmul_def fsub_def fl_zero fl_one float_of_u8_def)
  then show ?thesis
    unfolding blend_channel_def Let_def a by (simp only: to_uint8_of_u8)
qed

text \<open>The rounding errors of the five float64 operations of the blend.\<close>

lemma fl_abs_err:
  assumes "\<bar>x\<bar> \<le> 256"
  shows "\<bar>fl x - x\<bar> \<le> 256 / 2 ^ 53"
proof -
  have "\<bar>fl x - x\<bar> \<le> \<bar>x\<bar> / 2 ^ 53" by (rule fl_err)
  also have "\<dots> \<le> 256 / 2 ^ 53" using assms by (simp add: divide_right_mono)
  finally show ?thesis .
qed

lemma scaled_err:
  fixes c x y d :: real
  assumes "0 \<le> c" "c \<le> 255" "\<bar>x - y\<bar> \<le> d"
  shows "\<bar>c * x - c * y\<bar> \<le> 255 * d"
proof -
  have "\<bar>c * x - c * y\<bar> = c * \<bar>x - y\<bar>"
    using assms(1) by (simp add: abs_mult flip: right_diff_distrib)
  also have "\<dots> \<le> 255 * d"
    using assms by (intro mult_mono) simp_all
  finally show ?thesis .
qed

lemma alpha_hat_bounds:
  fixes a :: byte
  defines "ah \<equiv> fdiv (float_of_u8 a) 255"
  shows "0 \<le> ah" and "ah \<le> 1" and "\<bar>ah - real (unat a) / 255\<bar> \<le> 1 / 2 ^ 53"
proof -
  let ?al = "real (unat a) / 255"
  have ah: "ah = fl ?al" by (simp only: ah_def fdiv_def float_of_u8_exact)
  have a255: "real (unat a) \<le> 255" using unat_byte_less[of a] by simp
  have al: "0 \<le> ?al" "?al \<le> 1" using a255 by simp_all
  show "0 \<le> ah" unfolding ah using al(1) by (rule fl_nonneg)
  have err: "\<bar>ah - ?al\<bar> \<le> \<bar>?al\<bar> / 2 ^ 53" unfolding ah by (rule fl_err)
  also have "\<dots> \<le> 1 / 2 ^ 53" using al by (simp add: divide_right_mono)
  finally show "\<bar>ah - ?al\<bar> \<le> 1 / 2 ^ 53" .
  show "ah \<le> 1"
  proof (cases "unat a = 255")
    case True
    then have "?al = 1" by simp
    then show ?thesis unfolding ah by (simp only: fl_one)
  next
    case False
    then have "unat a \<le> 254" using unat_byte_less[of a] by simp
    then have "real (unat a) \<le> 254" by simp
    then have le: "?al \<le> 254 / 255" by simp
    have "\<bar>?al\<bar> / 2 ^ 53 \<le> (254 / 255) / 2 ^ 53"
      using le al(1) by (simp add: divide_right_mono)
    with err have "\<bar>ah - ?al\<bar> \<le> (254 / 255) / 2 ^ 53" by (rule order_trans)
    then have "ah \<le> ?al + (254 / 255) / 2 ^ 53" by linarith
    moreover have "(254 / 255 :: real) + (254 / 255) / 2 ^ 53 \<le> 1" by simp
    ultimately show ?thesis using le by linarith
  qed
qed

lemma blend_float_err:
  fixes ov a bg :: byte
  defines "Fv \<equiv> fadd (fmul (float_of_u8 ov) (fdiv (float_of_u8 a) 255))
                     (fmul (float_of_u8 bg) (fsub 1 (fdiv (float_of_u8 a) 255)))"
  shows "0 \<le> Fv" and "\<bar>Fv - blend_exact ov a bg\<bar> \<le> 1 / 2 ^ 42"
proof -
  define u :: real where "u = 1 / 2 ^ 53"
  define Ov where "Ov = real (unat ov)"
  define Bg where "Bg = real (unat bg)"
  define al where "al = real (unat a) / 255"
  define ah where "ah = fdiv (float_of_u8 a) 255"
  define t1 where "t1 = fl (Ov * ah)"
  define s where "s = fl (1 - ah)"
  define t2 where "t2 = fl (Bg * s)"
  have upos: "0 < u" and usmall: "u \<le> 1 / 4096" by (simp_all add: u_def)
  have Fv: "Fv = fl (t1 + t2)"
    by (simp only: Fv_def fadd_def fmul_def fsub_def float_of_u8_exact
        t1_def t2_def s_def ah_def Ov_def Bg_def)
  have Ex: "blend_exact ov a bg = Ov * al + Bg * (1 - al)"
    by (simp only: blend_exact_def Ov_def Bg_def al_def)
  have Ov: "0 \<le> Ov" "Ov \<le> 255" using unat_byte_less[of ov] by (simp_all add: Ov_def)
  have Bg: "0 \<le> Bg" "Bg \<le> 255" using unat_byte_less[of bg] by (simp_all add: Bg_def)
  have al: "0 \<le> al" "al \<le> 1" using unat_byte_less[of a] by (simp_all add: al_def)
  have ah: "0 \<le> ah" "ah \<le> 1" "\<bar>ah - al\<bar> \<le> u"
    using alpha_hat_bounds[of a] by (simp_all add: ah_def al_def u_def)
  \<comment> \<open>first product\<close>
  have p1: "0 \<le> Ov * ah" "Ov * ah \<le> 255"
    using Ov ah mult_mono[of Ov 255 ah 1] by simp_all
  have t1pos: "0 \<le> t1" unfolding t1_def using p1(1) by (rule fl_nonneg)
  have "\<bar>t1 - Ov * ah\<bar> \<le> 256 / 2 ^ 53"
    unfolding t1_def using p1 by (intro fl_abs_err) simp
  then have e1: "\<bar>t1 - Ov * ah\<bar> \<le> 256 * u" by (simp add: u_def)
  have e1': "\<bar>Ov * ah - Ov * al\<bar> \<le> 255 * u"
    using Ov ah(3) by (rule scaled_err)
  \<comment> \<open>complement of alpha\<close>
  have d: "0 \<le> 1 - ah" "1 - ah \<le> 1" using ah by simp_all
  have spos: "0 \<le> s" unfolding s_def using d(1) by (rule fl_nonneg)
  have "\<bar>s - (1 - ah)\<bar> \<le> \<bar>1 - ah\<bar> / 2 ^ 53" unfolding s_def by (rule fl_err)
  also have "\<dots> \<le> 1 / 2 ^ 53" using d by (simp add: divide_right_mono)
  finally have e2: "\<bar>s - (1 - ah)\<bar> \<le> u" by (simp add: u_def)
  have e2': "\<bar>s - (1 - al)\<bar> \<le> 2 * u" using e2 ah(3) by linarith
  have sle: "s \<le> 1 + u" using e2 d by linarith
  \<comment> \<open>second product\<close>
  have p2: "0 \<le> Bg * s" "Bg * s \<le> 256"
  proof -
    show "0 \<le> Bg * s" using Bg spos by simp
    have "Bg * s \<le> 255 * (1 + u)" using Bg spos sle by (intro mult_mono) simp_all
    also have "\<dots> \<le> 256" using usmall by simp
    finally show "Bg * s \<le> 256" .
  qed
  have t2pos: "0 \<le> t2" unfolding t2_def using p2(1) by (rule fl_nonneg)
  have "\<bar>t2 - Bg * s\<bar> \<le> 256 / 2 ^ 53"
    unfolding t2_def using p2 by (intro fl_abs_err) simp
  then have e3: "\<bar>t2 - Bg * s\<bar> \<le> 256 * u" by (simp add: u_def)
  have e3': "\<bar>Bg * s - Bg * (1 - al)\<bar> \<le> 255 * (2 * u)"
    using Bg e2' by (rule scaled_err)
  \<comment> \<open>the sum\<close>
  have Ebound: "0 \<le> Ov * al + Bg * (1 - al)" "Ov * al + Bg * (1 - al) \<le> 255"
  proof -
    show "0 \<le> Ov * al + Bg * (1 - al)" using Ov Bg al by simp
    have "Ov * al \<le> 255 * al" using Ov al by (intro mult_right_mono) simp_all
    moreover have "Bg * (1 - al) \<le> 255 * (1 - al)" using Bg al by (intro mult_right_mono) simp_all
    ultimately have "Ov * al + Bg * (1 - al) \<le> 255 * al + 255 * (1 - al)" by (rule add_mono)
    then show "Ov * al + Bg * (1 - al) \<le> 255" by simp
  qed
  have esum: "\<bar>(t1 + t2) - (Ov * al + Bg * (1 - al))\<bar> \<le> 1277 * u"
    using e1 e1' e3 e3' by linarith
  have sum: "0 \<le> t1 + t2" "t1 + t2 \<le> 256"
    using t1pos t2pos esum Ebound usmall by linarith+
  show "0 \<le> Fv" unfolding Fv using sum(1) by (rule fl_nonneg)
  have "\<bar>Fv - (t1 + t2)\<bar> \<le> 256 / 2 ^ 53"
    unfolding Fv using sum by (intro fl_abs_err) simp
  then have e4: "\<bar>Fv - (t1 + t2)\<bar> \<le> 256 * u" by (simp add: u_def)
  have "\<bar>Fv - (Ov * al + Bg * (1 - al))\<bar> \<le> 1533 * u" using e4 esum by linarith
  also have "\<dots> \<le> 1 / 2 ^ 42" by (simp add: u_def)
  finally show "\<bar>Fv - blend_exact ov a bg\<bar> \<le> 1 / 2 ^ 42" by (simp only: Ex)
qed

text \<open>The stored sample is the exact blend rounded down, or one less when the exact blend is whole.\<close>

lemma unat_word_of_int_byte:
  assumes "0 \<le> r" "r < 256"
  shows "int (unat (word_of_int r :: byte)) = r"
proof -
  have "uint (word_of_int r :: byte) = r"
    using assms by (simp add: uint_word_of_int take_bit_int_eq_self)
  then show ?thesis by (simp add: uint_nat)
qed

lemma blend_exact_ratio:
  "255 * blend_exact ov a bg
     = real (unat ov * unat a + unat bg * (255 - unat a))"
proof -
  have "unat a \<le> 255" using unat_byte_less[of a] by simp
  then have h: "real (255 - unat a) = 255 - real (unat a)" by simp
  have "real (unat ov * unat a + unat bg * (255 - unat a))
          = real (unat ov) * real (unat a) + real (unat bg) * (255 - real (unat a))"
    by (simp only: of_nat_add of_nat_mult h)
  also have "\<dots> = 255 * blend_exact ov a bg"
    by (simp add: blend_exact_def field_simps)
  finally show ?thesis by simp
qed

lemma blend_channel_floor:
  "int (unat (blend_channel ov a bg)) \<le> \<lfloor>blend_exact ov a bg\<rfloor>
   \<and> \<lceil>blend_exact ov a bg\<rceil> - 1 \<le> int (unat (blend_channel ov a bg))"
proof -
  define Fv where "Fv = fadd (fmul (float_of_u8 ov) (fdiv (float_of_u8 a) 255))
                     (fmul (float_of_u8 bg) (fsub 1 (fdiv (float_of_u8 a) 255)))"
  define Ex where "Ex = blend_exact ov a bg"
  define K where "K = int (unat ov * unat a + unat bg * (255 - unat a))"
  define r where "r = \<lfloor>Fv\<rfloor>"
  have Fpos: "0 \<le> Fv" and Ferr: "\<bar>Fv - Ex\<bar> \<le> 1 / 2 ^ 42"
    using blend_float_err[of ov a bg] by (simp_all only: Fv_def Ex_def)
  have K: "255 * Ex = of_int K"
    unfolding Ex_def K_def by (simp only: blend_exact_ratio of_int_of_nat_eq)
  have Kpos: "0 \<le> K" by (simp add: K_def)
  have "unat ov * unat a + unat bg * (255 - unat a) \<le> 255 * unat a + 255 * (255 - unat a)"
    using unat_byte_less[of ov] unat_byte_less[of bg] by (intro add_mono mult_right_mono) simp_all
  also have "\<dots> = 255 * 255" using unat_byte_less[of a] by simp
  finally have "int (unat ov * unat a + unat bg * (255 - unat a)) \<le> int (255 * 255)"
    by (simp only: of_nat_le_iff)
  then have "K \<le> 255 * 255" unfolding K_def by simp
  then have "(of_int K :: real) \<le> of_int (255 * 255)" by (simp only: of_int_le_iff)
  with K have Ex255: "Ex \<le> 255" by simp
  have tiny: "(1 / 2 ^ 42 :: real) < 1 / 255" by simp
  have r_lo: "0 \<le> r" using Fpos by (simp add: r_def)
  have "Fv < 256" using Ferr Ex255 tiny by linarith
  then have r_hi: "r < 256" by (simp add: r_def floor_less_iff)
  have out: "blend_channel ov a bg = word_of_int r"
    using Fpos by (simp add: blend_channel_def Let_def to_uint8_def py_int_def r_def Fv_def)
  have val: "int (unat (blend_channel ov a bg)) = r"
    unfolding out using r_lo r_hi by (rule unat_word_of_int_byte)
  have rF: "of_int r \<le> Fv" "Fv < of_int r + 1" by (simp_all add: r_def)
  \<comment> \<open>upper bound\<close>
  have "255 * of_int r < of_int K + (1::real)" using rF(1) Ferr K tiny by linarith
  then have "(of_int (255 * r) :: real) < of_int (K + 1)" by simp
  then have "255 * r < K + 1" by (simp only: of_int_less_iff)
  then have "255 * r \<le> K" by simp
  then have "(of_int (255 * r) :: real) \<le> of_int K" by (simp only: of_int_le_iff)
  with K have "of_int r \<le> Ex" by simp
  then have up: "r \<le> \<lfloor>Ex\<rfloor>" by (simp add: le_floor_iff)
  \<comment> \<open>lower bound\<close>
  have "of_int K - 256 < 255 * (of_int r :: real)" using rF(2) Ferr K tiny by linarith
  then have "(of_int (K - 256) :: real) < of_int (255 * r)" by simp
  then have "K - 256 < 255 * r" by (simp only: of_int_less_iff)
  then have "K \<le> 255 * (r + 1)" by simp
  then have "(of_int K :: real) \<le> of_int (255 * (r + 1))" by (simp only: of_int_le_iff)
  with K have "Ex \<le> of_int (r + 1)" by simp
  then have "\<lceil>Ex\<rceil> \<le> r + 1" by (simp only: ceiling_le_iff)
  then have lo: "\<lceil>Ex\<rceil> - 1 \<le> r" by simp
  from up lo show ?thesis unfolding val Ex_def by simp
qed

section \<open>Properties of the compositing\<close>

subsection \<open>Slices with in-range bounds\<close>

lemma norm_index_nat: "norm_index n (int i) = min i n"
  by (simp add: norm_index_def)

lemma py_slice_nat:
  assumes "i \<le> j" "j \<le> length xs"
  shows "py_slice xs (int i) (int j) = take (j - i) (drop i xs)"
  using assms by (simp add: py_slice_def norm_index_nat Let_def min_def)

lemma length_py_slice_nat:
  assumes "i \<le> j" "j \<le> length xs"
  shows "length (py_slice xs (int i) (int j)) = j - i"
  using assms by (simp add: py_slice_nat)

lemma nth_py_slice_nat:
  assumes "i \<le> j" "j \<le> length xs" "k < j - i"
  shows "py_slice xs (int i) (int j) ! k = xs ! (i + k)"
  using assms by (simp add: py_slice_nat)

lemma length_slice2:
  assumes "r1 \<le> r2" "r2 \<le> height a"
  shows "length (slice2 a (int r1) (int r2) c1 c2) = r2 - r1"
  using assms by (simp add: slice2_def height_def length_py_slice_nat)

lemma nth_slice2_row:
  assumes "r1 \<le> r2" "r2 \<le> height a" "k < r2 - r1"
  shows "slice2 a (int r1) (int r2) c1 c2 ! k = py_slice (a ! (r1 + k)) c1 c2"
  using assms by (simp add: slice2_def height_def length_py_slice_nat nth_py_slice_nat)

lemma slice2_row_length:
  assumes "wf_raster c a" "r1 \<le> r2" "r2 \<le> height a" "c1 \<le> c2" "c2 \<le> width a" "k < r2 - r1"
  shows "length (slice2 a (int r1) (int r2) (int c1) (int c2) ! k) = c2 - c1"
proof -
  have "r1 + k < height a" using assms by simp
  then have "length (a ! (r1 + k)) = width a" using assms(1) by (simp add: wf_raster_nth_row)
  then show ?thesis using assms by (simp add: nth_slice2_row length_py_slice_nat)
qed

lemma nth_slice2:
  assumes "wf_raster c a" "r1 \<le> r2" "r2 \<le> height a" "c1 \<le> c2" "c2 \<le> width a"
    and "k < r2 - r1" "l < c2 - c1"
  shows "slice2 a (int r1) (int r2) (int c1) (int c2) ! k ! l = a ! (r1 + k) ! (c1 + l)"
proof -
  have "r1 + k < height a" using assms by simp
  then have "length (a ! (r1 + k)) = width a" using assms(1) by (simp add: wf_raster_nth_row)
  then show ?thesis using assms by (simp add: nth_slice2_row nth_py_slice_nat)
qed

lemma width_nth0: "a \<noteq> [] \<Longrightarrow> width a = length (a ! 0)"
  by (cases a) (simp_all add: width_def)

lemma shape2_slice2:
  assumes "wf_raster c a" "r1 < r2" "r2 \<le> height a" "c1 \<le> c2" "c2 \<le> width a"
  shows "shape2 (slice2 a (int r1) (int r2) (int c1) (int c2)) = (r2 - r1, c2 - c1)"
proof -
  let ?s = "slice2 a (int r1) (int r2) (int c1) (int c2)"
  have len: "length ?s = r2 - r1" using assms by (simp add: length_slice2)
  then have ne: "?s \<noteq> []" using assms(2) by auto
  have "length (?s ! 0) = c2 - c1"
    using assms by (intro slice2_row_length[where c = c]) simp_all
  then show ?thesis using len ne by (simp add: shape2_def height_def width_nth0)
qed

subsection \<open>Writing a block\<close>

lemma nth_append3:
  assumes "length xs = n" "length ys = m"
  shows "(xs @ ys @ zs) ! j =
           (if j < n then xs ! j else if j < n + m then ys ! (j - n) else zs ! (j - (n + m)))"
proof -
  have "\<not> j < n \<Longrightarrow> \<not> j < n + m \<Longrightarrow> j - n - m = j - (n + m)" by simp
  moreover have "\<not> j < n \<Longrightarrow> (j - n < m) = (j < n + m)" by linarith
  ultimately show ?thesis using assms by (simp add: nth_append)
qed

lemma patch_row:
  assumes "c1 \<le> c2" "c2 \<le> length row" "length brow = c2 - c1"
  defines "res \<equiv> take c1 row @ brow @ drop (c1 + length brow) row"
  shows "length res = length row"
    and "j < length row \<Longrightarrow> res ! j = (if c1 \<le> j \<and> j < c2 then brow ! (j - c1) else row ! j)"
proof -
  show "length res = length row" using assms(1-3) by (simp add: res_def)
  assume j: "j < length row"
  have l1: "length (take c1 row) = c1" using assms(1,2) by simp
  have c: "c1 + length brow = c2" using assms(1,3) by simp
  have "res ! j = (if j < c1 then take c1 row ! j
                   else if j < c1 + (c2 - c1) then brow ! (j - c1)
                   else drop c2 row ! (j - (c1 + (c2 - c1))))"
    unfolding res_def c using l1 assms(3) by (rule nth_append3)
  moreover have "c1 + (c2 - c1) = c2" using assms(1) by simp
  moreover have "c2 \<le> j \<Longrightarrow> drop c2 row ! (j - c2) = row ! j" using assms(2) j by simp
  ultimately show "res ! j = (if c1 \<le> j \<and> j < c2 then brow ! (j - c1) else row ! j)"
    using j by (auto simp: not_less)
qed

lemma patch_rows:
  fixes f :: "'a \<Rightarrow> 'b \<Rightarrow> 'a" and a :: "'a list" and b :: "'b list"
  assumes "r1 \<le> r2" "r2 \<le> length a" "length b = r2 - r1"
  defines "res \<equiv> take r1 a @ map2 f (take (length b) (drop r1 a)) b @ drop (r1 + length b) a"
  shows "length res = length a"
    and "i < length a \<Longrightarrow>
           res ! i = (if r1 \<le> i \<and> i < r2 then f (a ! i) (b ! (i - r1)) else a ! i)"
proof -
  let ?M = "map2 f (take (length b) (drop r1 a)) b"
  show "length res = length a" using assms(1-3) by (simp add: res_def)
  assume i: "i < length a"
  have l1: "length (take r1 a) = r1" using assms(1,2) by simp
  have l2: "length ?M = r2 - r1" using assms(1-3) by simp
  have c: "r1 + length b = r2" using assms(1,3) by simp
  have "res ! i = (if i < r1 then take r1 a ! i
                   else if i < r1 + (r2 - r1) then ?M ! (i - r1)
                   else drop r2 a ! (i - (r1 + (r2 - r1))))"
    unfolding res_def c using l1 l2 by (rule nth_append3)
  moreover have "r1 + (r2 - r1) = r2" using assms(1) by simp
  moreover have "r2 \<le> i \<Longrightarrow> drop r2 a ! (i - r2) = a ! i" using assms(2) i by simp
  moreover have "r1 \<le> i \<Longrightarrow> i < r2 \<Longrightarrow> ?M ! (i - r1) = f (a ! i) (b ! (i - r1))"
    using assms(1-3) by simp
  ultimately show "res ! i = (if r1 \<le> i \<and> i < r2 then f (a ! i) (b ! (i - r1)) else a ! i)"
    using i by (auto simp: not_less)
qed

lemma set_slice2_nat:
  assumes wf: "wf_raster c a"
    and r: "r1 < r2" "r2 \<le> height a"
    and c: "c1 \<le> c2" "c2 \<le> width a"
    and b: "length b = r2 - r1" "\<forall>k<r2 - r1. length (b ! k) = c2 - c1"
  shows "\<exists>R. set_slice2 a (int r1) (int r2) (int c1) (int c2) b = Inr R
           \<and> height R = height a
           \<and> (\<forall>i<height a. length (R ! i) = width a
                \<and> (\<forall>j<width a. R ! i ! j =
                      (if r1 \<le> i \<and> i < r2 \<and> c1 \<le> j \<and> j < c2
                       then b ! (i - r1) ! (j - c1) else a ! i ! j)))"
proof -
  let ?f = "\<lambda>row brow. let j = norm_index (length row) (int c1)
                       in take j row @ brow @ drop (j + length brow) row"
  let ?g = "\<lambda>row brow. take c1 row @ brow @ drop (c1 + length brow) row"
  let ?R = "take r1 a @ map2 ?f (take (length b) (drop r1 a)) b @ drop (r1 + length b) a"
  have la: "r2 \<le> length a" using r(2) by (simp add: height_def)
  have bne: "b \<noteq> []" using b(1) r(1) by auto
  have "length (b ! 0) = c2 - c1" using b(2) r(1) by simp
  then have sb: "shape2 b = (r2 - r1, c2 - c1)"
    using b(1) bne by (simp add: shape2_def height_def width_nth0)
  have ss: "shape2 (slice2 a (int r1) (int r2) (int c1) (int c2)) = (r2 - r1, c2 - c1)"
    using wf r c by (rule shape2_slice2)
  have i0: "norm_index (length a) (int r1) = r1"
    using r la by (simp add: norm_index_nat)
  have eq: "set_slice2 a (int r1) (int r2) (int c1) (int c2) b = Inr ?R"
    by (simp add: set_slice2_def ss sb i0 Let_def)
  have lenR: "length ?R = length a"
    using r(1) la b(1) by (intro patch_rows(1)[where ?r2.0 = r2]) simp_all
  have rows: "\<forall>i<height a. length (?R ! i) = width a
                \<and> (\<forall>j<width a. ?R ! i ! j =
                      (if r1 \<le> i \<and> i < r2 \<and> c1 \<le> j \<and> j < c2
                       then b ! (i - r1) ! (j - c1) else a ! i ! j))"
  proof (intro allI impI)
    fix i assume i: "i < height a"
    then have il: "i < length a" by (simp add: height_def)
    have wrow: "length (a ! i) = width a" using wf i by (rule wf_raster_nth_row)
    have Ri: "?R ! i = (if r1 \<le> i \<and> i < r2 then ?f (a ! i) (b ! (i - r1)) else a ! i)"
      using r(1) la b(1) il by (intro patch_rows(2)[where ?r2.0 = r2]) simp_all
    show "length (?R ! i) = width a
                \<and> (\<forall>j<width a. ?R ! i ! j =
                      (if r1 \<le> i \<and> i < r2 \<and> c1 \<le> j \<and> j < c2
                       then b ! (i - r1) ! (j - c1) else a ! i ! j))"
    proof (cases "r1 \<le> i \<and> i < r2")
      case False
      then show ?thesis using Ri wrow by auto
    next
      case True
      then have k: "i - r1 < r2 - r1" by linarith
      then have lb: "length (b ! (i - r1)) = c2 - c1" using b(2) by simp
      have j0: "norm_index (length (a ! i)) (int c1) = c1"
        using c wrow by (simp add: norm_index_nat)
      have Ri': "?R ! i = ?g (a ! i) (b ! (i - r1))"
        using Ri True by (simp add: Let_def j0)
      have c2l: "c2 \<le> length (a ! i)" using c(2) wrow by simp
      have "length (?g (a ! i) (b ! (i - r1))) = length (a ! i)"
        using c(1) c2l lb by (rule patch_row(1))
      moreover have "\<forall>j<width a. ?g (a ! i) (b ! (i - r1)) ! j =
                 (if c1 \<le> j \<and> j < c2 then b ! (i - r1) ! (j - c1) else a ! i ! j)"
        using patch_row(2)[OF c(1) c2l lb] wrow by simp
      ultimately show ?thesis using True wrow by (simp add: Ri')
    qed
  qed
  from eq lenR rows show ?thesis by (auto simp: height_def)
qed

subsection \<open>The clipped rectangles and the blended block\<close>

lemma wf_raster_iff_nth:
  "wf_raster c a \<longleftrightarrow>
     0 < height a \<and> 0 < width a
     \<and> (\<forall>i<height a. length (a ! i) = width a \<and> (\<forall>j<width a. length (a ! i ! j) = c))"
proof (cases a)
  case Nil
  then show ?thesis by (simp add: wf_raster_def height_def)
next
  case (Cons row rest)
  have "wf_raster c a \<longleftrightarrow> row \<noteq> [] \<and> (\<forall>i<length a. length (a ! i) = length row
           \<and> (\<forall>j<length (a ! i). length (a ! i ! j) = c))"
    unfolding wf_raster_def using Cons by (simp add: list_all_length)
  also have "\<dots> \<longleftrightarrow> 0 < height a \<and> 0 < width a
     \<and> (\<forall>i<height a. length (a ! i) = width a \<and> (\<forall>j<width a. length (a ! i ! j) = c))"
    using Cons by (auto simp: height_def width_def)
  finally show ?thesis .
qed

lemma clip_in_range:
  assumes "0 < w" "0 < h" "0 < bg_w" "0 < bg_h"
    and "\<not> outside bg_w bg_h w h x y"
    and "dest_rect bg_w bg_h w h x y = (x1, y1, x2, y2)"
    and "src_rect x y (x1, y1, x2, y2) = (overlay_x1, overlay_y1, overlay_x2, overlay_y2)"
  shows "0 \<le> x1 \<and> x1 < x2 \<and> x2 \<le> bg_w \<and> 0 \<le> y1 \<and> y1 < y2 \<and> y2 \<le> bg_h
       \<and> 0 \<le> overlay_x1 \<and> overlay_x1 < overlay_x2 \<and> overlay_x2 \<le> w
       \<and> 0 \<le> overlay_y1 \<and> overlay_y1 < overlay_y2 \<and> overlay_y2 \<le> h
       \<and> overlay_x2 - overlay_x1 = x2 - x1 \<and> overlay_y2 - overlay_y1 = y2 - y1
       \<and> overlay_x1 = x1 - x \<and> overlay_y1 = y1 - y"
  using assms by (auto simp: outside_def dest_rect_def src_rect_def Let_def)

lemma length_blend_pixel: "length op = 4 \<Longrightarrow> length bp = 3 \<Longrightarrow> length (blend_pixel op bp) = 3"
  by (simp add: blend_pixel_def)

lemma nth_blend_pixel:
  "length op = 4 \<Longrightarrow> length bp = 3 \<Longrightarrow> k < 3 \<Longrightarrow>
     blend_pixel op bp ! k = blend_channel (op ! k) (op ! 3) (bp ! k)"
  by (simp add: blend_pixel_def)

subsection \<open>The result of an intersecting placement\<close>

lemma overlay_inside:
  assumes wfb: "wf_raster 3 (s background)" and wfo: "wf_raster 4 (s overlay)"
    and ins: "\<not> outside (int (width (s background))) (int (height (s background)))
                 (int (width (s overlay))) (int (height (s overlay))) x y"
    and dst: "dest_rect (int (width (s background))) (int (height (s background)))
                 (int (width (s overlay))) (int (height (s overlay))) x y = (x1, y1, x2, y2)"
  shows "\<exists>R. overlay_image_alpha s background overlay x y = Inr (background, s(background := R))
           \<and> height R = height (s background)
           \<and> (\<forall>i<height (s background). length (R ! i) = width (s background)
                \<and> (\<forall>j<width (s background). R ! i ! j =
                      (if y1 \<le> int i \<and> int i < y2 \<and> x1 \<le> int j \<and> int j < x2
                       then blend_pixel (s overlay ! nat (int i - y) ! nat (int j - x))
                                        (s background ! i ! j)
                       else s background ! i ! j)))"
proof -
  define bg where "bg = s background"
  define ov where "ov = s overlay"
  obtain ox1 oy1 ox2 oy2 where src: "src_rect x y (x1, y1, x2, y2) = (ox1, oy1, ox2, oy2)"
    by (cases "src_rect x y (x1, y1, x2, y2)") auto
  have posb: "0 < int (width bg)" "0 < int (height bg)"
    using wf_raster_pos[OF wfb] by (simp_all add: bg_def)
  have poso: "0 < int (width ov)" "0 < int (height ov)"
    using wf_raster_pos[OF wfo] by (simp_all add: ov_def)
  have rng: "0 \<le> x1 \<and> x1 < x2 \<and> x2 \<le> int (width bg) \<and> 0 \<le> y1 \<and> y1 < y2 \<and> y2 \<le> int (height bg)
       \<and> 0 \<le> ox1 \<and> ox1 < ox2 \<and> ox2 \<le> int (width ov)
       \<and> 0 \<le> oy1 \<and> oy1 < oy2 \<and> oy2 \<le> int (height ov)
       \<and> ox2 - ox1 = x2 - x1 \<and> oy2 - oy1 = y2 - y1
       \<and> ox1 = x1 - x \<and> oy1 = y1 - y"
    using poso posb ins dst src unfolding bg_def ov_def by (rule clip_in_range)
  define X1 Y1 X2 Y2 where "X1 = nat x1" and "Y1 = nat y1" and "X2 = nat x2" and "Y2 = nat y2"
  define A1 B1 A2 B2 where "A1 = nat ox1" and "B1 = nat oy1" and "A2 = nat ox2" and "B2 = nat oy2"
  have ints: "x1 = int X1" "y1 = int Y1" "x2 = int X2" "y2 = int Y2"
             "ox1 = int A1" "oy1 = int B1" "ox2 = int A2" "oy2 = int B2"
    using rng by (simp_all add: X1_def Y1_def X2_def Y2_def A1_def B1_def A2_def B2_def)
  have nb: "X1 < X2" "X2 \<le> width bg" "Y1 < Y2" "Y2 \<le> height bg"
    using rng unfolding ints by simp_all
  have no: "A1 < A2" "A2 \<le> width ov" "B1 < B2" "B2 \<le> height ov"
    using rng unfolding ints by simp_all
  have sz: "A2 - A1 = X2 - X1" "B2 - B1 = Y2 - Y1"
    using rng unfolding ints by linarith+
  let ?src = "slice2 ov (int B1) (int B2) (int A1) (int A2)"
  let ?roi = "slice2 bg (int Y1) (int Y2) (int X1) (int X2)"
  let ?bl = "map2 (map2 blend_pixel) ?src ?roi"
  have wfo': "wf_raster 4 ov" and wfb': "wf_raster 3 bg" using wfo wfb by (simp_all add: ov_def bg_def)
  have ssrc: "shape2 ?src = (Y2 - Y1, X2 - X1)"
    using shape2_slice2[OF wfo' no(3,4) less_imp_le[OF no(1)] no(2)] sz by simp
  have sroi: "shape2 ?roi = (Y2 - Y1, X2 - X1)"
    using shape2_slice2[OF wfb' nb(3,4) less_imp_le[OF nb(1)] nb(2)] by simp
  have lsrc: "length ?src = Y2 - Y1"
    using length_slice2[of B1 B2 ov] no sz by simp
  have lroi: "length ?roi = Y2 - Y1"
    using length_slice2[of Y1 Y2 bg] nb by simp
  have lbl: "length ?bl = Y2 - Y1" using lsrc lroi by simp
  have rows: "length (?src ! k) = X2 - X1 \<and> length (?roi ! k) = X2 - X1" if "k < Y2 - Y1" for k
    using slice2_row_length[OF wfo' less_imp_le[OF no(3)] no(4) less_imp_le[OF no(1)] no(2), of k]
          slice2_row_length[OF wfb' less_imp_le[OF nb(3)] nb(4) less_imp_le[OF nb(1)] nb(2), of k]
          that sz by simp
  have blrow: "\<forall>k<Y2 - Y1. length (?bl ! k) = X2 - X1"
    using rows lsrc lroi by simp
  have blnth: "?bl ! k ! l = blend_pixel (ov ! (B1 + k) ! (A1 + l)) (bg ! (Y1 + k) ! (X1 + l))"
    if "k < Y2 - Y1" "l < X2 - X1" for k l
  proof -
    have "?bl ! k ! l = blend_pixel (?src ! k ! l) (?roi ! k ! l)"
      using that rows[of k] lsrc lroi by simp
    moreover have "?src ! k ! l = ov ! (B1 + k) ! (A1 + l)"
      using that sz by (intro nth_slice2[OF wfo' less_imp_le[OF no(3)] no(4) less_imp_le[OF no(1)] no(2)]) simp_all
    moreover have "?roi ! k ! l = bg ! (Y1 + k) ! (X1 + l)"
      using that by (intro nth_slice2[OF wfb' less_imp_le[OF nb(3)] nb(4) less_imp_le[OF nb(1)] nb(2)]) simp_all
    ultimately show ?thesis by simp
  qed
  from set_slice2_nat[OF wfb' nb(3,4) less_imp_le[OF nb(1)] nb(2) lbl blrow]
  obtain R where R: "set_slice2 bg (int Y1) (int Y2) (int X1) (int X2) ?bl = Inr R"
    and hR: "height R = height bg"
    and pR: "\<forall>i<height bg. length (R ! i) = width bg
                \<and> (\<forall>j<width bg. R ! i ! j =
                      (if Y1 \<le> i \<and> i < Y2 \<and> X1 \<le> j \<and> j < X2
                       then ?bl ! (i - Y1) ! (j - X1) else bg ! i ! j))"
    by blast
  have ch: "channels ov = 4" "channels bg = 3"
    using wfo' wfb' by (simp_all add: wf_raster_channels)
  have run: "overlay_image_alpha s background overlay x y = Inr (background, s(background := R))"
    using ins dst src R ssrc sroi ch
    unfolding overlay_image_alpha_def Let_def bg_def[symmetric] ov_def[symmetric] ints
    by simp
  have px: "\<forall>i<height bg. length (R ! i) = width bg
                \<and> (\<forall>j<width bg. R ! i ! j =
                      (if y1 \<le> int i \<and> int i < y2 \<and> x1 \<le> int j \<and> int j < x2
                       then blend_pixel (ov ! nat (int i - y) ! nat (int j - x)) (bg ! i ! j)
                       else bg ! i ! j))"
  proof (intro allI impI conjI)
    fix i assume i: "i < height bg"
    show "length (R ! i) = width bg" using pR i by simp
    fix j assume j: "j < width bg"
    have Rij: "R ! i ! j = (if Y1 \<le> i \<and> i < Y2 \<and> X1 \<le> j \<and> j < X2
                       then ?bl ! (i - Y1) ! (j - X1) else bg ! i ! j)"
      using pR i j by blast
    have cond: "(y1 \<le> int i \<and> int i < y2 \<and> x1 \<le> int j \<and> int j < x2)
                  \<longleftrightarrow> (Y1 \<le> i \<and> i < Y2 \<and> X1 \<le> j \<and> j < X2)"
      unfolding ints by simp
    show "R ! i ! j = (if y1 \<le> int i \<and> int i < y2 \<and> x1 \<le> int j \<and> int j < x2
                       then blend_pixel (ov ! nat (int i - y) ! nat (int j - x)) (bg ! i ! j)
                       else bg ! i ! j)"
    proof (cases "Y1 \<le> i \<and> i < Y2 \<and> X1 \<le> j \<and> j < X2")
      case False
      have "R ! i ! j = bg ! i ! j" by (subst Rij) (rule if_not_P[OF False])
      moreover have "\<not> (y1 \<le> int i \<and> int i < y2 \<and> x1 \<le> int j \<and> int j < x2)"
        unfolding cond by (rule False)
      ultimately show ?thesis by auto
    next
      case True
      then have kl: "i - Y1 < Y2 - Y1" "j - X1 < X2 - X1" by linarith+
      have "int B1 = int Y1 - y" "int A1 = int X1 - x" using rng unfolding ints by simp_all
      then have idx: "B1 + (i - Y1) = nat (int i - y)" "A1 + (j - X1) = nat (int j - x)"
        using True by linarith+
      have "R ! i ! j = ?bl ! (i - Y1) ! (j - X1)" by (subst Rij) (rule if_P[OF True])
      also have "\<dots> = blend_pixel (ov ! (B1 + (i - Y1)) ! (A1 + (j - X1)))
                                    (bg ! (Y1 + (i - Y1)) ! (X1 + (j - X1)))"
        using kl by (rule blnth)
      also have "\<dots> = blend_pixel (ov ! nat (int i - y) ! nat (int j - x)) (bg ! i ! j)"
        using True by (simp add: idx)
      finally have "R ! i ! j = blend_pixel (ov ! nat (int i - y) ! nat (int j - x)) (bg ! i ! j)" .
      moreover have "y1 \<le> int i \<and> int i < y2 \<and> x1 \<le> int j \<and> int j < x2"
        unfolding cond by (rule True)
      ultimately show ?thesis by simp
    qed
  qed
  from run hR px show ?thesis unfolding bg_def ov_def by blast
qed

lemma pixel3_eqI:
  assumes "length p = 3" "length q = 3" "\<forall>k<3. p ! k = q ! k"
  shows "p = q"
  using assms by (intro nth_equalityI) simp_all

lemma raster_eqI:
  assumes "height R = height a"
    and "\<forall>i<height a. length (R ! i) = length (a ! i) \<and> (\<forall>j<length (a ! i). R ! i ! j = a ! i ! j)"
  shows "R = a"
proof (rule nth_equalityI)
  show "length R = length a" using assms(1) by (simp add: height_def)
  fix i assume "i < length R"
  then have i: "i < height a" using assms(1) by (simp add: height_def)
  show "R ! i = a ! i"
    using assms(2) i by (intro nth_equalityI) simp_all
qed

lemma overlay_source_pixel:
  assumes wfo: "wf_raster 4 ov"
    and dst: "dest_rect bg_w bg_h (int (width ov)) (int (height ov)) x y = (x1, y1, x2, y2)"
    and inr: "y1 \<le> int i" "int i < y2" "x1 \<le> int j" "int j < x2"
  shows "nat (int i - y) < height ov" "nat (int j - x) < width ov"
    and "length (ov ! nat (int i - y) ! nat (int j - x)) = 4"
proof -
  from dst have d: "x1 = max 0 x" "y1 = max 0 y" "x2 = min bg_w (x + int (width ov))"
    "y2 = min bg_h (y + int (height ov))"
    by (simp_all add: dest_rect_def)
  show a: "nat (int i - y) < height ov" using inr d by linarith
  show b: "nat (int j - x) < width ov" using inr d by linarith
  show "length (ov ! nat (int i - y) ! nat (int j - x)) = 4"
    using wfo a b by (rule wf_raster_nth_pixel)
qed

lemma overlay_inside_wf:
  assumes wfb: "wf_raster 3 (s background)" and wfo: "wf_raster 4 (s overlay)"
    and ins: "\<not> outside (int (width (s background))) (int (height (s background)))
                 (int (width (s overlay))) (int (height (s overlay))) x y"
    and dst: "dest_rect (int (width (s background))) (int (height (s background)))
                 (int (width (s overlay))) (int (height (s overlay))) x y = (x1, y1, x2, y2)"
  shows "\<exists>R. overlay_image_alpha s background overlay x y = Inr (background, s(background := R))
           \<and> wf_raster 3 R \<and> shape2 R = shape2 (s background)
           \<and> (\<forall>i<height (s background). \<forall>j<width (s background). R ! i ! j =
                      (if y1 \<le> int i \<and> int i < y2 \<and> x1 \<le> int j \<and> int j < x2
                       then blend_pixel (s overlay ! nat (int i - y) ! nat (int j - x))
                                        (s background ! i ! j)
                       else s background ! i ! j))"
proof -
  from overlay_inside[OF assms]
  obtain R where run: "overlay_image_alpha s background overlay x y = Inr (background, s(background := R))"
    and hR: "height R = height (s background)"
    and pR: "\<forall>i<height (s background). length (R ! i) = width (s background)
                \<and> (\<forall>j<width (s background). R ! i ! j =
                      (if y1 \<le> int i \<and> int i < y2 \<and> x1 \<le> int j \<and> int j < x2
                       then blend_pixel (s overlay ! nat (int i - y) ! nat (int j - x))
                                        (s background ! i ! j)
                       else s background ! i ! j))"
    by blast
  have pos: "0 < height (s background)" "0 < width (s background)"
    using wf_raster_pos[OF wfb] by simp_all
  have "length (R ! 0) = width (s background)" using pR pos by simp
  moreover have "R \<noteq> []" using hR pos by (auto simp: height_def)
  ultimately have wR: "width R = width (s background)" by (simp add: width_nth0)
  have len: "length (R ! i ! j) = 3" if ij: "i < height (s background)" "j < width (s background)" for i j
  proof (cases "y1 \<le> int i \<and> int i < y2 \<and> x1 \<le> int j \<and> int j < x2")
    case False
    have Rij: "R ! i ! j = (if y1 \<le> int i \<and> int i < y2 \<and> x1 \<le> int j \<and> int j < x2
                       then blend_pixel (s overlay ! nat (int i - y) ! nat (int j - x))
                                        (s background ! i ! j)
                       else s background ! i ! j)"
      using pR ij by blast
    have "R ! i ! j = s background ! i ! j" by (subst Rij) (rule if_not_P[OF False])
    then show ?thesis using wf_raster_nth_pixel[OF wfb ij] by simp
  next
    case True
    have Rij: "R ! i ! j = (if y1 \<le> int i \<and> int i < y2 \<and> x1 \<le> int j \<and> int j < x2
                       then blend_pixel (s overlay ! nat (int i - y) ! nat (int j - x))
                                        (s background ! i ! j)
                       else s background ! i ! j)"
      using pR ij by blast
    have "R ! i ! j = blend_pixel (s overlay ! nat (int i - y) ! nat (int j - x))
                                        (s background ! i ! j)"
      by (subst Rij) (rule if_P[OF True])
    moreover from True have t: "y1 \<le> int i" "int i < y2" "x1 \<le> int j" "int j < x2"
      by blast+
    have "length (s overlay ! nat (int i - y) ! nat (int j - x)) = 4"
      using wfo dst t by (rule overlay_source_pixel(3))
    ultimately show ?thesis
      using wf_raster_nth_pixel[OF wfb ij] by (simp add: length_blend_pixel)
  qed
  have "wf_raster 3 R"
    unfolding wf_raster_iff_nth using hR wR pos pR len by simp
  moreover have "shape2 R = shape2 (s background)" using hR wR by (simp add: shape2_def)
  ultimately show ?thesis using run pR by blast
qed

section \<open>Claims about the compositing\<close>

subsection \<open>The clipped rectangles\<close>

text \<open>
  Claim C9. For a background and an overlay with at least one row and one column and a
  placement that passes both early-return tests, the destination rectangle
  \<open>x1 = max 0 x\<close>, \<open>y1 = max 0 y\<close>, \<open>x2 = min bg_w (x + w)\<close>, \<open>y2 = min bg_h (y + h)\<close>
  is non-empty and inside the background, the source rectangle is non-empty and inside
  the overlay, and the two slices have the same shape; with a three-channel background
  and a four-channel overlay the call raises nothing.
\<close>

theorem clipped_rectangles_in_range:
  assumes "wf_raster cb (s background)" and "wf_raster co (s overlay)"
    and "\<not> outside (int (width (s background))) (int (height (s background)))
              (int (width (s overlay))) (int (height (s overlay))) x y"
    and "dest_rect (int (width (s background))) (int (height (s background)))
              (int (width (s overlay))) (int (height (s overlay))) x y = (x1, y1, x2, y2)"
    and "src_rect x y (x1, y1, x2, y2) = (overlay_x1, overlay_y1, overlay_x2, overlay_y2)"
  shows "x1 = max 0 x \<and> y1 = max 0 y
       \<and> x2 = min (int (width (s background))) (x + int (width (s overlay)))
       \<and> y2 = min (int (height (s background))) (y + int (height (s overlay)))
       \<and> 0 \<le> x1 \<and> x1 < x2 \<and> x2 \<le> int (width (s background))
       \<and> 0 \<le> y1 \<and> y1 < y2 \<and> y2 \<le> int (height (s background))
       \<and> 0 \<le> overlay_x1 \<and> overlay_x1 < overlay_x2 \<and> overlay_x2 \<le> int (width (s overlay))
       \<and> 0 \<le> overlay_y1 \<and> overlay_y1 < overlay_y2 \<and> overlay_y2 \<le> int (height (s overlay))
       \<and> shape2 (slice2 (s background) y1 y2 x1 x2) = (nat (y2 - y1), nat (x2 - x1))
       \<and> shape2 (slice2 (s overlay) overlay_y1 overlay_y2 overlay_x1 overlay_x2)
           = shape2 (slice2 (s background) y1 y2 x1 x2)
       \<and> (cb = 3 \<and> co = 4 \<longrightarrow> (\<exists>res. overlay_image_alpha s background overlay x y = Inr res))"
proof -
  have posb: "0 < int (width (s background))" "0 < int (height (s background))"
    using wf_raster_pos[OF assms(1)] by simp_all
  have poso: "0 < int (width (s overlay))" "0 < int (height (s overlay))"
    using wf_raster_pos[OF assms(2)] by simp_all
  have rng: "0 \<le> x1 \<and> x1 < x2 \<and> x2 \<le> int (width (s background))
       \<and> 0 \<le> y1 \<and> y1 < y2 \<and> y2 \<le> int (height (s background))
       \<and> 0 \<le> overlay_x1 \<and> overlay_x1 < overlay_x2 \<and> overlay_x2 \<le> int (width (s overlay))
       \<and> 0 \<le> overlay_y1 \<and> overlay_y1 < overlay_y2 \<and> overlay_y2 \<le> int (height (s overlay))
       \<and> overlay_x2 - overlay_x1 = x2 - x1 \<and> overlay_y2 - overlay_y1 = y2 - y1
       \<and> overlay_x1 = x1 - x \<and> overlay_y1 = y1 - y"
    using poso posb assms(3,4,5) by (rule clip_in_range)
  have d: "x1 = max 0 x \<and> y1 = max 0 y
       \<and> x2 = min (int (width (s background))) (x + int (width (s overlay)))
       \<and> y2 = min (int (height (s background))) (y + int (height (s overlay)))"
    using assms(4) by (simp add: dest_rect_def)
  have nb: "nat y1 < nat y2" "nat y2 \<le> height (s background)"
            "nat x1 \<le> nat x2" "nat x2 \<le> width (s background)"
    using rng by linarith+
  have no: "nat overlay_y1 < nat overlay_y2" "nat overlay_y2 \<le> height (s overlay)"
            "nat overlay_x1 \<le> nat overlay_x2" "nat overlay_x2 \<le> width (s overlay)"
    using rng by linarith+
  have sb: "shape2 (slice2 (s background) (int (nat y1)) (int (nat y2)) (int (nat x1)) (int (nat x2)))
              = (nat y2 - nat y1, nat x2 - nat x1)"
    using assms(1) nb by (rule shape2_slice2)
  have so: "shape2 (slice2 (s overlay) (int (nat overlay_y1)) (int (nat overlay_y2))
                      (int (nat overlay_x1)) (int (nat overlay_x2)))
              = (nat overlay_y2 - nat overlay_y1, nat overlay_x2 - nat overlay_x1)"
    using assms(2) no by (rule shape2_slice2)
  have i: "int (nat y1) = y1" "int (nat y2) = y2" "int (nat x1) = x1" "int (nat x2) = x2"
          "int (nat overlay_y1) = overlay_y1" "int (nat overlay_y2) = overlay_y2"
          "int (nat overlay_x1) = overlay_x1" "int (nat overlay_x2) = overlay_x2"
    using rng by simp_all
  have e: "nat y2 - nat y1 = nat (y2 - y1)" "nat x2 - nat x1 = nat (x2 - x1)"
          "nat overlay_y2 - nat overlay_y1 = nat (y2 - y1)"
          "nat overlay_x2 - nat overlay_x1 = nat (x2 - x1)"
    using rng by linarith+
  have sb': "shape2 (slice2 (s background) y1 y2 x1 x2) = (nat (y2 - y1), nat (x2 - x1))"
    using sb by (simp only: i e)
  have so': "shape2 (slice2 (s overlay) overlay_y1 overlay_y2 overlay_x1 overlay_x2)
               = (nat (y2 - y1), nat (x2 - x1))"
    using so by (simp only: i e)
  have "cb = 3 \<and> co = 4 \<longrightarrow> (\<exists>res. overlay_image_alpha s background overlay x y = Inr res)"
  proof
    assume "cb = 3 \<and> co = 4"
    then have "wf_raster 3 (s background)" "wf_raster 4 (s overlay)"
      using assms(1,2) by simp_all
    from overlay_inside[OF this assms(3,4)]
    show "\<exists>res. overlay_image_alpha s background overlay x y = Inr res" by blast
  qed
  with rng d sb' so' show ?thesis by simp
qed

theorem clipped_rectangles_in_range_witness:
  "dest_rect 2 2 2 2 1 (- 1) = (1, 0, 2, 1) \<and> src_rect 1 (- 1) (1, 0, 2, 1) = (0, 1, 1, 2)
   \<and> shape2 (slice2 [[[1, 2, 3, 255], [4, 5, 6, 0]], [[7, 8, 9, 255], [5, 5, 5, 5 :: byte]]] 1 2 0 1)
       = shape2 (slice2 [[[10, 20, 30], [40, 50, 60]], [[70, 80, 90], [100, 110, 120 :: byte]]] 0 1 1 2)
   \<and> (\<exists>res. overlay_image_alpha
            (two_rasters [[[10, 20, 30], [40, 50, 60]], [[70, 80, 90], [100, 110, 120]]]
                         [[[1, 2, 3, 255], [4, 5, 6, 0]], [[7, 8, 9, 255], [5, 5, 5, 5]]])
            0 1 1 (- 1) = Inr res)"
proof -
  let ?bg = "[[[10, 20, 30], [40, 50, 60]], [[70, 80, 90], [100, 110, 120 :: byte]]]"
  let ?ov = "[[[1, 2, 3, 255], [4, 5, 6, 0]], [[7, 8, 9, 255], [5, 5, 5, 5 :: byte]]]"
  let ?s = "two_rasters ?bg ?ov"
  have s0: "?s 0 = ?bg" and s1: "?s 1 = ?ov" by (simp_all add: two_rasters_def)
  have wfb: "wf_raster 3 (?s 0)" unfolding s0 by (simp add: wf_raster_def)
  have wfo: "wf_raster 4 (?s 1)" unfolding s1 by (simp add: wf_raster_def)
  have dims: "width (?s 0) = 2" "height (?s 0) = 2" "width (?s 1) = 2" "height (?s 1) = 2"
    unfolding s0 s1 by (simp_all add: width_def height_def)
  have ins: "\<not> outside (int (width (?s 0))) (int (height (?s 0)))
                 (int (width (?s 1))) (int (height (?s 1))) 1 (- 1)"
    unfolding dims by (simp add: outside_def)
  have dst: "dest_rect (int (width (?s 0))) (int (height (?s 0)))
                 (int (width (?s 1))) (int (height (?s 1))) 1 (- 1) = (1, 0, 2, 1)"
    unfolding dims by (simp add: dest_rect_def)
  have src: "src_rect 1 (- 1) (1, 0, 2, 1) = (0, 1, 1, 2)"
    by (simp add: src_rect_def)
  from clipped_rectangles_in_range[OF wfb wfo ins dst src]
  have "shape2 (slice2 (?s 1) 1 2 0 1) = shape2 (slice2 (?s 0) 0 1 1 2)
        \<and> (\<exists>res. overlay_image_alpha ?s 0 1 1 (- 1) = Inr res)"
    by blast
  moreover have "dest_rect 2 2 2 2 1 (- 1) = (1, 0, 2, 1)" by (simp add: dest_rect_def)
  ultimately show ?thesis using src unfolding s0 s1 by blast
qed


subsection \<open>Placements outside the background, and the frame\<close>

text \<open>
  Claim C2. When one of the two early-return tests fires, the call returns the reference
  it was given and the store is unchanged, for any arrays; for non-empty arrays the tests
  fire exactly when the placement rectangle and the background rectangle share no pixel.
  For an intersecting placement of a four-channel overlay on a three-channel background
  the call returns the same reference, the store changes at that reference only, the new
  background has the old shape, and every pixel outside the clipped rectangle is the old
  one.
\<close>

theorem overlay_outside_and_frame:
  "(outside (int (width (s background))) (int (height (s background)))
            (int (width (s overlay))) (int (height (s overlay))) x y
      \<longrightarrow> overlay_image_alpha s background overlay x y = Inr (background, s))
   \<and> (wf_raster cb (s background) \<and> wf_raster co (s overlay)
      \<longrightarrow> ((\<forall>i j. \<not> (y \<le> i \<and> i < y + int (height (s overlay)) \<and> 0 \<le> i
                       \<and> i < int (height (s background))
                       \<and> x \<le> j \<and> j < x + int (width (s overlay)) \<and> 0 \<le> j
                       \<and> j < int (width (s background))))
            \<longleftrightarrow> outside (int (width (s background))) (int (height (s background)))
                  (int (width (s overlay))) (int (height (s overlay))) x y))
   \<and> (wf_raster 3 (s background) \<and> wf_raster 4 (s overlay)
        \<and> \<not> outside (int (width (s background))) (int (height (s background)))
                  (int (width (s overlay))) (int (height (s overlay))) x y
        \<and> dest_rect (int (width (s background))) (int (height (s background)))
                  (int (width (s overlay))) (int (height (s overlay))) x y = (x1, y1, x2, y2)
      \<longrightarrow> (\<exists>R. overlay_image_alpha s background overlay x y
                   = Inr (background, s(background := R))
                \<and> wf_raster 3 R \<and> shape2 R = shape2 (s background)
                \<and> (\<forall>i<height (s background). \<forall>j<width (s background).
                      \<not> (y1 \<le> int i \<and> int i < y2 \<and> x1 \<le> int j \<and> int j < x2)
                      \<longrightarrow> R ! i ! j = s background ! i ! j)))"
proof -
  let ?W = "int (width (s background))" and ?H = "int (height (s background))"
  let ?w = "int (width (s overlay))" and ?h = "int (height (s overlay))"
  have p1: "overlay_image_alpha s background overlay x y = Inr (background, s)"
    if "outside ?W ?H ?w ?h x y"
    using that by (simp add: overlay_image_alpha_def Let_def)
  have p2: "(\<forall>i j. \<not> (y \<le> i \<and> i < y + ?h \<and> 0 \<le> i \<and> i < ?H
                       \<and> x \<le> j \<and> j < x + ?w \<and> 0 \<le> j \<and> j < ?W))
            \<longleftrightarrow> outside ?W ?H ?w ?h x y"
    if wf: "wf_raster cb (s background) \<and> wf_raster co (s overlay)"
  proof
    assume out: "outside ?W ?H ?w ?h x y"
    then show "\<forall>i j. \<not> (y \<le> i \<and> i < y + ?h \<and> 0 \<le> i \<and> i < ?H
                       \<and> x \<le> j \<and> j < x + ?w \<and> 0 \<le> j \<and> j < ?W)"
      unfolding outside_def by (intro allI) linarith
  next
    assume none: "\<forall>i j. \<not> (y \<le> i \<and> i < y + ?h \<and> 0 \<le> i \<and> i < ?H
                       \<and> x \<le> j \<and> j < x + ?w \<and> 0 \<le> j \<and> j < ?W)"
    have pos: "0 < ?W" "0 < ?H" "0 < ?w" "0 < ?h"
      using wf wf_raster_pos[of cb "s background"] wf_raster_pos[of co "s overlay"] by simp_all
    show "outside ?W ?H ?w ?h x y"
    proof (rule ccontr)
      assume "\<not> outside ?W ?H ?w ?h x y"
      then have "y \<le> max 0 y \<and> max 0 y < y + ?h \<and> 0 \<le> max 0 y \<and> max 0 y < ?H
                 \<and> x \<le> max 0 x \<and> max 0 x < x + ?w \<and> 0 \<le> max 0 x \<and> max 0 x < ?W"
        using pos unfolding outside_def by linarith
      with none show False by blast
    qed
  qed
  have p3: "\<exists>R. overlay_image_alpha s background overlay x y
                   = Inr (background, s(background := R))
                \<and> wf_raster 3 R \<and> shape2 R = shape2 (s background)
                \<and> (\<forall>i<height (s background). \<forall>j<width (s background).
                      \<not> (y1 \<le> int i \<and> int i < y2 \<and> x1 \<le> int j \<and> int j < x2)
                      \<longrightarrow> R ! i ! j = s background ! i ! j)"
    if h: "wf_raster 3 (s background) \<and> wf_raster 4 (s overlay)
        \<and> \<not> outside ?W ?H ?w ?h x y \<and> dest_rect ?W ?H ?w ?h x y = (x1, y1, x2, y2)"
  proof -
    from h have a: "wf_raster 3 (s background)" "wf_raster 4 (s overlay)"
      "\<not> outside ?W ?H ?w ?h x y" "dest_rect ?W ?H ?w ?h x y = (x1, y1, x2, y2)"
      by blast+
    from overlay_inside_wf[OF a]
    obtain R where run: "overlay_image_alpha s background overlay x y
                           = Inr (background, s(background := R))"
      and wR: "wf_raster 3 R" "shape2 R = shape2 (s background)"
      and pR: "\<forall>i<height (s background). \<forall>j<width (s background). R ! i ! j =
                      (if y1 \<le> int i \<and> int i < y2 \<and> x1 \<le> int j \<and> int j < x2
                       then blend_pixel (s overlay ! nat (int i - y) ! nat (int j - x))
                                        (s background ! i ! j)
                       else s background ! i ! j)"
      by blast
    have "\<forall>i<height (s background). \<forall>j<width (s background).
                      \<not> (y1 \<le> int i \<and> int i < y2 \<and> x1 \<le> int j \<and> int j < x2)
                      \<longrightarrow> R ! i ! j = s background ! i ! j"
    proof (intro allI impI)
      fix i j assume ij: "i < height (s background)" "j < width (s background)"
        and no: "\<not> (y1 \<le> int i \<and> int i < y2 \<and> x1 \<le> int j \<and> int j < x2)"
      have Rij: "R ! i ! j = (if y1 \<le> int i \<and> int i < y2 \<and> x1 \<le> int j \<and> int j < x2
                       then blend_pixel (s overlay ! nat (int i - y) ! nat (int j - x))
                                        (s background ! i ! j)
                       else s background ! i ! j)"
        using pR ij by blast
      show "R ! i ! j = s background ! i ! j" by (subst Rij) (rule if_not_P[OF no])
    qed
    with run wR show ?thesis by blast
  qed
  from p1 p2 p3 show ?thesis by blast
qed

theorem overlay_outside_and_frame_witness:
  "overlay_image_alpha
      (two_rasters [[[10, 20, 30], [40, 50, 60]], [[70, 80, 90], [100, 110, 120]]]
                   [[[1, 2, 3, 255], [4, 5, 6, 0]], [[7, 8, 9, 255], [5, 5, 5, 5]]])
      0 1 2 0
    = Inr (0, two_rasters [[[10, 20, 30], [40, 50, 60]], [[70, 80, 90], [100, 110, 120]]]
                   [[[1, 2, 3, 255], [4, 5, 6, 0]], [[7, 8, 9, 255], [5, 5, 5, 5]]])
   \<and> (\<exists>R. overlay_image_alpha
            (two_rasters [[[10, 20, 30], [40, 50, 60]], [[70, 80, 90], [100, 110, 120]]]
                         [[[1, 2, 3, 255], [4, 5, 6, 0]], [[7, 8, 9, 255], [5, 5, 5, 5]]])
            0 1 1 (- 1)
          = Inr (0, (two_rasters [[[10, 20, 30], [40, 50, 60]], [[70, 80, 90], [100, 110, 120]]]
                         [[[1, 2, 3, 255], [4, 5, 6, 0]], [[7, 8, 9, 255], [5, 5, 5, 5]]])(0 := R))
        \<and> R ! 1 ! 1 = [100, 110, 120])"
proof -
  let ?bg = "[[[10, 20, 30], [40, 50, 60]], [[70, 80, 90], [100, 110, 120 :: byte]]]"
  let ?ov = "[[[1, 2, 3, 255], [4, 5, 6, 0]], [[7, 8, 9, 255], [5, 5, 5, 5 :: byte]]]"
  let ?s = "two_rasters ?bg ?ov"
  have s0: "?s 0 = ?bg" and s1: "?s 1 = ?ov" by (simp_all add: two_rasters_def)
  have wfb: "wf_raster 3 (?s 0)" unfolding s0 by (simp add: wf_raster_def)
  have wfo: "wf_raster 4 (?s 1)" unfolding s1 by (simp add: wf_raster_def)
  have dims: "width (?s 0) = 2" "height (?s 0) = 2" "width (?s 1) = 2" "height (?s 1) = 2"
    unfolding s0 s1 by (simp_all add: width_def height_def)
  have out: "outside (int (width (?s 0))) (int (height (?s 0)))
                 (int (width (?s 1))) (int (height (?s 1))) 2 0"
    unfolding dims by (simp add: outside_def)
  have ins: "\<not> outside (int (width (?s 0))) (int (height (?s 0)))
                 (int (width (?s 1))) (int (height (?s 1))) 1 (- 1)"
    unfolding dims by (simp add: outside_def)
  have dst: "dest_rect (int (width (?s 0))) (int (height (?s 0)))
                 (int (width (?s 1))) (int (height (?s 1))) 1 (- 1) = (1, 0, 2, 1)"
    unfolding dims by (simp add: dest_rect_def)
  have a: "overlay_image_alpha ?s 0 1 2 0 = Inr (0, ?s)"
    using overlay_outside_and_frame[of ?s 0 1 2 0] out by blast
  from overlay_outside_and_frame[of ?s 0 1 1 "- 1" 3 4 1 0 2 1] wfb wfo ins dst
  obtain R where run: "overlay_image_alpha ?s 0 1 1 (- 1) = Inr (0, ?s(0 := R))"
    and fr: "\<forall>i<height (?s 0). \<forall>j<width (?s 0).
               \<not> (0 \<le> int i \<and> int i < 1 \<and> 1 \<le> int j \<and> int j < 2) \<longrightarrow> R ! i ! j = ?s 0 ! i ! j"
    by blast
  have i1: "(1::nat) < height (?s 0)" "(1::nat) < width (?s 0)" by (simp_all add: dims)
  have c: "\<not> (0 \<le> int 1 \<and> int 1 < 1 \<and> 1 \<le> int 1 \<and> int 1 < 2)" by simp
  have "R ! 1 ! 1 = ?s 0 ! 1 ! 1" using fr[rule_format, OF i1 c] .
  then have b: "R ! 1 ! 1 = [100, 110, 120]" unfolding s0 by simp
  from a run b show ?thesis by blast
qed

subsection \<open>The blended region\<close>

text \<open>
  Claim C1, as the code has it. For an intersecting placement of a four-channel overlay
  on a three-channel background, only the pixels of the clipped rectangle change. Each
  of their samples is \<open>blend_channel\<close> of the overlay sample, the overlay's
  transparency and the background sample at the corresponding position: the formula
  \<open>overlay * alpha + background * (1 - alpha)\<close> with \<open>alpha = a / 255\<close>, computed in
  float64 and truncated to eight bits by \<^verbatim>\<open>astype(np.uint8)\<close>. The stored sample is the
  exact value of the formula rounded down, or one less when that value is a whole
  number. Transparency 255 gives the overlay sample exactly, transparency 0 the
  background sample exactly, and an overlay of transparency 0 everywhere leaves the
  background array as it was.
\<close>

theorem overlay_blend_region:
  assumes wfb: "wf_raster 3 (s background)" and wfo: "wf_raster 4 (s overlay)"
    and ins: "\<not> outside (int (width (s background))) (int (height (s background)))
                 (int (width (s overlay))) (int (height (s overlay))) x y"
    and dst: "dest_rect (int (width (s background))) (int (height (s background)))
                 (int (width (s overlay))) (int (height (s overlay))) x y = (x1, y1, x2, y2)"
  shows "\<exists>R. overlay_image_alpha s background overlay x y = Inr (background, s(background := R))
           \<and> wf_raster 3 R \<and> shape2 R = shape2 (s background)
           \<and> (\<forall>i<height (s background). \<forall>j<width (s background).
                 if y1 \<le> int i \<and> int i < y2 \<and> x1 \<le> int j \<and> int j < x2
                 then (\<forall>k<3.
                    R ! i ! j ! k
                      = blend_channel (s overlay ! nat (int i - y) ! nat (int j - x) ! k)
                          (s overlay ! nat (int i - y) ! nat (int j - x) ! 3)
                          (s background ! i ! j ! k)
                    \<and> int (unat (R ! i ! j ! k))
                        \<le> \<lfloor>blend_exact (s overlay ! nat (int i - y) ! nat (int j - x) ! k)
                             (s overlay ! nat (int i - y) ! nat (int j - x) ! 3)
                             (s background ! i ! j ! k)\<rfloor>
                    \<and> \<lceil>blend_exact (s overlay ! nat (int i - y) ! nat (int j - x) ! k)
                             (s overlay ! nat (int i - y) ! nat (int j - x) ! 3)
                             (s background ! i ! j ! k)\<rceil> - 1
                        \<le> int (unat (R ! i ! j ! k))
                    \<and> (s overlay ! nat (int i - y) ! nat (int j - x) ! 3 = 255
                        \<longrightarrow> R ! i ! j ! k = s overlay ! nat (int i - y) ! nat (int j - x) ! k)
                    \<and> (s overlay ! nat (int i - y) ! nat (int j - x) ! 3 = 0
                        \<longrightarrow> R ! i ! j ! k = s background ! i ! j ! k))
                 else R ! i ! j = s background ! i ! j)
           \<and> ((\<forall>row\<in>set (s overlay). \<forall>p\<in>set row. p ! 3 = 0) \<longrightarrow> R = s background)"
proof -
  define bg where "bg = s background"
  define ov where "ov = s overlay"
  from overlay_inside_wf[OF assms]
  obtain R where run: "overlay_image_alpha s background overlay x y
                           = Inr (background, s(background := R))"
    and wR: "wf_raster 3 R" and sR: "shape2 R = shape2 bg"
    and pR: "\<forall>i<height bg. \<forall>j<width bg. R ! i ! j =
                      (if y1 \<le> int i \<and> int i < y2 \<and> x1 \<le> int j \<and> int j < x2
                       then blend_pixel (ov ! nat (int i - y) ! nat (int j - x)) (bg ! i ! j)
                       else bg ! i ! j)"
    unfolding bg_def ov_def by blast
  have wfb': "wf_raster 3 bg" and wfo': "wf_raster 4 ov" using wfb wfo by (simp_all add: bg_def ov_def)
  have dst': "dest_rect (int (width bg)) (int (height bg)) (int (width ov)) (int (height ov)) x y
                = (x1, y1, x2, y2)"
    using dst by (simp add: bg_def ov_def)
  have Rij: "R ! i ! j =
                      (if y1 \<le> int i \<and> int i < y2 \<and> x1 \<le> int j \<and> int j < x2
                       then blend_pixel (ov ! nat (int i - y) ! nat (int j - x)) (bg ! i ! j)
                       else bg ! i ! j)"
    if "i < height bg" "j < width bg" for i j
    using pR that by blast
  have inside: "R ! i ! j ! k = blend_channel (ov ! nat (int i - y) ! nat (int j - x) ! k)
                          (ov ! nat (int i - y) ! nat (int j - x) ! 3) (bg ! i ! j ! k)"
    if ij: "i < height bg" "j < width bg"
      and c: "y1 \<le> int i \<and> int i < y2 \<and> x1 \<le> int j \<and> int j < x2" and k: "k < 3" for i j k
  proof -
    from c have t: "y1 \<le> int i" "int i < y2" "x1 \<le> int j" "int j < x2" by blast+
    have l4: "length (ov ! nat (int i - y) ! nat (int j - x)) = 4"
      using wfo' dst' t by (rule overlay_source_pixel(3))
    have l3: "length (bg ! i ! j) = 3" using wfb' ij by (rule wf_raster_nth_pixel)
    have "R ! i ! j = blend_pixel (ov ! nat (int i - y) ! nat (int j - x)) (bg ! i ! j)"
      by (subst Rij[OF ij]) (rule if_P[OF c])
    then show ?thesis using nth_blend_pixel[OF l4 l3 k] by simp
  qed
  have outside_px: "R ! i ! j = bg ! i ! j"
    if ij: "i < height bg" "j < width bg"
      and c: "\<not> (y1 \<le> int i \<and> int i < y2 \<and> x1 \<le> int j \<and> int j < x2)" for i j
    by (subst Rij[OF ij]) (rule if_not_P[OF c])
  have px: "\<forall>i<height bg. \<forall>j<width bg.
                 if y1 \<le> int i \<and> int i < y2 \<and> x1 \<le> int j \<and> int j < x2
                 then (\<forall>k<3.
                    R ! i ! j ! k
                      = blend_channel (ov ! nat (int i - y) ! nat (int j - x) ! k)
                          (ov ! nat (int i - y) ! nat (int j - x) ! 3) (bg ! i ! j ! k)
                    \<and> int (unat (R ! i ! j ! k))
                        \<le> \<lfloor>blend_exact (ov ! nat (int i - y) ! nat (int j - x) ! k)
                             (ov ! nat (int i - y) ! nat (int j - x) ! 3) (bg ! i ! j ! k)\<rfloor>
                    \<and> \<lceil>blend_exact (ov ! nat (int i - y) ! nat (int j - x) ! k)
                             (ov ! nat (int i - y) ! nat (int j - x) ! 3) (bg ! i ! j ! k)\<rceil> - 1
                        \<le> int (unat (R ! i ! j ! k))
                    \<and> (ov ! nat (int i - y) ! nat (int j - x) ! 3 = 255
                        \<longrightarrow> R ! i ! j ! k = ov ! nat (int i - y) ! nat (int j - x) ! k)
                    \<and> (ov ! nat (int i - y) ! nat (int j - x) ! 3 = 0
                        \<longrightarrow> R ! i ! j ! k = bg ! i ! j ! k))
                 else R ! i ! j = bg ! i ! j"
  proof (intro allI impI)
    fix i j assume ij: "i < height bg" "j < width bg"
    show "if y1 \<le> int i \<and> int i < y2 \<and> x1 \<le> int j \<and> int j < x2
                 then (\<forall>k<3.
                    R ! i ! j ! k
                      = blend_channel (ov ! nat (int i - y) ! nat (int j - x) ! k)
                          (ov ! nat (int i - y) ! nat (int j - x) ! 3) (bg ! i ! j ! k)
                    \<and> int (unat (R ! i ! j ! k))
                        \<le> \<lfloor>blend_exact (ov ! nat (int i - y) ! nat (int j - x) ! k)
                             (ov ! nat (int i - y) ! nat (int j - x) ! 3) (bg ! i ! j ! k)\<rfloor>
                    \<and> \<lceil>blend_exact (ov ! nat (int i - y) ! nat (int j - x) ! k)
                             (ov ! nat (int i - y) ! nat (int j - x) ! 3) (bg ! i ! j ! k)\<rceil> - 1
                        \<le> int (unat (R ! i ! j ! k))
                    \<and> (ov ! nat (int i - y) ! nat (int j - x) ! 3 = 255
                        \<longrightarrow> R ! i ! j ! k = ov ! nat (int i - y) ! nat (int j - x) ! k)
                    \<and> (ov ! nat (int i - y) ! nat (int j - x) ! 3 = 0
                        \<longrightarrow> R ! i ! j ! k = bg ! i ! j ! k))
                 else R ! i ! j = bg ! i ! j"
    proof (cases "y1 \<le> int i \<and> int i < y2 \<and> x1 \<le> int j \<and> int j < x2")
      case False
      show ?thesis unfolding if_not_P[OF False] using ij False by (rule outside_px)
    next
      case True
      show ?thesis unfolding if_P[OF True]
      proof (intro allI impI)
        fix k :: nat assume k: "k < 3"
        note e = inside[OF ij True k]
        show "R ! i ! j ! k
                      = blend_channel (ov ! nat (int i - y) ! nat (int j - x) ! k)
                          (ov ! nat (int i - y) ! nat (int j - x) ! 3) (bg ! i ! j ! k)
                    \<and> int (unat (R ! i ! j ! k))
                        \<le> \<lfloor>blend_exact (ov ! nat (int i - y) ! nat (int j - x) ! k)
                             (ov ! nat (int i - y) ! nat (int j - x) ! 3) (bg ! i ! j ! k)\<rfloor>
                    \<and> \<lceil>blend_exact (ov ! nat (int i - y) ! nat (int j - x) ! k)
                             (ov ! nat (int i - y) ! nat (int j - x) ! 3) (bg ! i ! j ! k)\<rceil> - 1
                        \<le> int (unat (R ! i ! j ! k))
                    \<and> (ov ! nat (int i - y) ! nat (int j - x) ! 3 = 255
                        \<longrightarrow> R ! i ! j ! k = ov ! nat (int i - y) ! nat (int j - x) ! k)
                    \<and> (ov ! nat (int i - y) ! nat (int j - x) ! 3 = 0
                        \<longrightarrow> R ! i ! j ! k = bg ! i ! j ! k)"
          unfolding e
          using blend_channel_floor[of "ov ! nat (int i - y) ! nat (int j - x) ! k"
                  "ov ! nat (int i - y) ! nat (int j - x) ! 3" "bg ! i ! j ! k"]
          by (auto simp: blend_channel_opaque blend_channel_transparent)
      qed
    qed
  qed
  have clear: "R = bg" if zero: "\<forall>row\<in>set ov. \<forall>p\<in>set row. p ! 3 = 0"
  proof (rule raster_eqI)
    show "height R = height bg" using sR by (simp add: shape2_def)
    have wRb: "width R = width bg" using sR by (simp add: shape2_def)
    show "\<forall>i<height bg. length (R ! i) = length (bg ! i) \<and> (\<forall>j<length (bg ! i). R ! i ! j = bg ! i ! j)"
    proof (intro allI impI conjI)
      fix i assume i: "i < height bg"
      then have iR: "i < height R" using sR by (simp add: shape2_def)
      have lb: "length (bg ! i) = width bg" using wfb' i by (rule wf_raster_nth_row)
      have lR: "length (R ! i) = width R" using wR iR by (rule wf_raster_nth_row)
      show "length (R ! i) = length (bg ! i)" using lb lR wRb by simp
      fix j assume "j < length (bg ! i)"
      then have j: "j < width bg" using lb by simp
      show "R ! i ! j = bg ! i ! j"
      proof (cases "y1 \<le> int i \<and> int i < y2 \<and> x1 \<le> int j \<and> int j < x2")
        case False
        with i j show ?thesis by (rule outside_px)
      next
        case True
        then have t: "y1 \<le> int i" "int i < y2" "x1 \<le> int j" "int j < x2" by blast+
        let ?p = "ov ! nat (int i - y) ! nat (int j - x)"
        have r: "nat (int i - y) < height ov" and c: "nat (int j - x) < width ov"
          using overlay_source_pixel(1,2)[OF wfo' dst' t] by simp_all
        have "length (ov ! nat (int i - y)) = width ov" using wfo' r by (rule wf_raster_nth_row)
        then have "ov ! nat (int i - y) \<in> set ov" "?p \<in> set (ov ! nat (int i - y))"
          using r c by (simp_all add: height_def)
        then have a0: "?p ! 3 = 0" using zero by blast
        have l3: "length (bg ! i ! j) = 3" using wfb' i j by (rule wf_raster_nth_pixel)
        have l3R: "length (R ! i ! j) = 3"
          using wR iR j wRb by (intro wf_raster_nth_pixel[where c = 3 and a = R]) simp_all
        show ?thesis
        proof (rule pixel3_eqI[OF l3R l3], intro allI impI)
          fix k :: nat assume "k < 3"
          then show "R ! i ! j ! k = bg ! i ! j ! k"
            using inside[OF i j True] a0 by (simp add: blend_channel_transparent)
        qed
      qed
    qed
  qed
  from run wR sR px clear show ?thesis unfolding bg_def ov_def by blast
qed

theorem overlay_blend_region_witness:
  "\<exists>R. overlay_image_alpha
          (two_rasters [[[10, 20, 30], [40, 50, 60]], [[70, 80, 90], [100, 110, 120]]]
                       [[[1, 2, 3, 255], [4, 5, 6, 0]], [[7, 8, 9, 255], [5, 5, 5, 5]]])
          0 1 1 (- 1)
        = Inr (0, (two_rasters [[[10, 20, 30], [40, 50, 60]], [[70, 80, 90], [100, 110, 120]]]
                       [[[1, 2, 3, 255], [4, 5, 6, 0]], [[7, 8, 9, 255], [5, 5, 5, 5]]])(0 := R))
      \<and> R ! 0 ! 1 ! 0 = 7 \<and> R ! 0 ! 0 = [10, 20, 30]"
proof -
  let ?bg = "[[[10, 20, 30], [40, 50, 60]], [[70, 80, 90], [100, 110, 120 :: byte]]]"
  let ?ov = "[[[1, 2, 3, 255], [4, 5, 6, 0]], [[7, 8, 9, 255], [5, 5, 5, 5 :: byte]]]"
  let ?s = "two_rasters ?bg ?ov"
  have s0: "?s 0 = ?bg" and s1: "?s 1 = ?ov" by (simp_all add: two_rasters_def)
  have wfb: "wf_raster 3 (?s 0)" unfolding s0 by (simp add: wf_raster_def)
  have wfo: "wf_raster 4 (?s 1)" unfolding s1 by (simp add: wf_raster_def)
  have dims: "width (?s 0) = 2" "height (?s 0) = 2" "width (?s 1) = 2" "height (?s 1) = 2"
    unfolding s0 s1 by (simp_all add: width_def height_def)
  have ins: "\<not> outside (int (width (?s 0))) (int (height (?s 0)))
                 (int (width (?s 1))) (int (height (?s 1))) 1 (- 1)"
    unfolding dims by (simp add: outside_def)
  have dst: "dest_rect (int (width (?s 0))) (int (height (?s 0)))
                 (int (width (?s 1))) (int (height (?s 1))) 1 (- 1) = (1, 0, 2, 1)"
    unfolding dims by (simp add: dest_rect_def)
  from overlay_blend_region[OF wfb wfo ins dst]
  obtain R where run: "overlay_image_alpha ?s 0 1 1 (- 1) = Inr (0, ?s(0 := R))"
    and px: "\<forall>i<height (?s 0). \<forall>j<width (?s 0).
                 if 0 \<le> int i \<and> int i < 1 \<and> 1 \<le> int j \<and> int j < 2
                 then (\<forall>k<3.
                    R ! i ! j ! k
                      = blend_channel (?s 1 ! nat (int i - (- 1)) ! nat (int j - 1) ! k)
                          (?s 1 ! nat (int i - (- 1)) ! nat (int j - 1) ! 3)
                          (?s 0 ! i ! j ! k)
                    \<and> int (unat (R ! i ! j ! k))
                        \<le> \<lfloor>blend_exact (?s 1 ! nat (int i - (- 1)) ! nat (int j - 1) ! k)
                             (?s 1 ! nat (int i - (- 1)) ! nat (int j - 1) ! 3)
                             (?s 0 ! i ! j ! k)\<rfloor>
                    \<and> \<lceil>blend_exact (?s 1 ! nat (int i - (- 1)) ! nat (int j - 1) ! k)
                             (?s 1 ! nat (int i - (- 1)) ! nat (int j - 1) ! 3)
                             (?s 0 ! i ! j ! k)\<rceil> - 1
                        \<le> int (unat (R ! i ! j ! k))
                    \<and> (?s 1 ! nat (int i - (- 1)) ! nat (int j - 1) ! 3 = 255
                        \<longrightarrow> R ! i ! j ! k = ?s 1 ! nat (int i - (- 1)) ! nat (int j - 1) ! k)
                    \<and> (?s 1 ! nat (int i - (- 1)) ! nat (int j - 1) ! 3 = 0
                        \<longrightarrow> R ! i ! j ! k = ?s 0 ! i ! j ! k))
                 else R ! i ! j = ?s 0 ! i ! j"
    by blast
  have i0: "(0::nat) < height (?s 0)" "(1::nat) < width (?s 0)" "(0::nat) < width (?s 0)"
    by (simp_all add: dims)
  have c1: "0 \<le> int 0 \<and> int 0 < 1 \<and> 1 \<le> int 1 \<and> int 1 < 2" by simp
  have c0: "\<not> (0 \<le> int 0 \<and> int 0 < 1 \<and> 1 \<le> int 0 \<and> int 0 < 2)" by simp
  have k0: "(0::nat) < 3" by simp
  have op: "?s 1 ! nat (int 0 - (- 1)) ! nat (int 1 - 1) = [7, 8, 9, 255]"
    unfolding s1 by simp
  note f = px[rule_format, OF i0(1) i0(2), unfolded if_P[OF c1]]
  from f[rule_format, OF k0]
  have h: "?s 1 ! nat (int 0 - (- 1)) ! nat (int 1 - 1) ! 3 = 255
             \<longrightarrow> R ! 0 ! 1 ! 0 = ?s 1 ! nat (int 0 - (- 1)) ! nat (int 1 - 1) ! 0"
    by blast
  have a: "R ! 0 ! 1 ! 0 = 7" using h unfolding op by simp
  note g = px[rule_format, OF i0(1) i0(3), unfolded if_not_P[OF c0]]
  have b: "R ! 0 ! 0 = [10, 20, 30]" using g unfolding s0 by simp
  from run a b show ?thesis by blast
qed


text \<open>
  Claim C1 as stated makes the output equal to the value of the formula. With overlay
  sample 1, transparency 128 and background 0 the formula gives \<open>128 / 255\<close> and the
  stored sample is 0; with all three samples and the transparency equal to 5 the
  formula gives 5 and the stored sample is 4.
\<close>

theorem overlay_truncation_counterexample:
  "result_raster (overlay_image_alpha (two_rasters [[[0, 0, 0]]] [[[1, 1, 1, 128]]]) 0 1 0 0)
     = Some [[[0, 0, 0]]]
   \<and> blend_exact 1 128 0 = 128 / 255
   \<and> result_raster (overlay_image_alpha (two_rasters [[[5, 5, 5]]] [[[5, 5, 5, 5]]]) 0 1 0 0)
     = Some [[[4, 4, 4]]]
   \<and> blend_exact 5 5 5 = 5"
proof -
  have "result_raster (overlay_image_alpha (two_rasters [[[0, 0, 0]]] [[[1, 1, 1, 128]]]) 0 1 0 0)
     = Some [[[0, 0, 0]]]"
    by code_simp
  moreover have "blend_exact 1 128 0 = 128 / 255"
    by (simp add: blend_exact_def)
  moreover have "result_raster (overlay_image_alpha (two_rasters [[[5, 5, 5]]] [[[5, 5, 5, 5]]]) 0 1 0 0)
     = Some [[[4, 4, 4]]]"
    by code_simp
  moreover have "blend_exact 5 5 5 = 5"
    by (simp add: blend_exact_def)
  ultimately show ?thesis by blast
qed

section \<open>Properties of the transform parameters\<close>

subsection \<open>The angle\<close>

text \<open>
  \<open>arctan2\<close> is the polar angle: it lies in \<open>(-\<pi>, \<pi>]\<close> and gives back the point.
\<close>

lemma degrees_pi: "degrees pi = 180" "degrees (pi / 2) = 90" "degrees (- (pi / 2)) = - 90" "degrees 0 = 0"
  by (simp_all add: degrees_def)

lemma arctan2_axis:
  "0 \<le> x \<Longrightarrow> arctan2 0 x = 0"
  "x < 0 \<Longrightarrow> arctan2 0 x = pi"
  "0 < y \<Longrightarrow> arctan2 y 0 = pi / 2"
  "y < 0 \<Longrightarrow> arctan2 y 0 = - (pi / 2)"
  by (simp_all add: arctan2_def)

lemma arctan2_range: "- pi < arctan2 y x \<and> arctan2 y x \<le> pi"
proof -
  have b: "- (pi / 2) < arctan (y / x)" "arctan (y / x) < pi / 2"
    by (rule arctan_lbound, rule arctan_ubound)
  have pos: "0 < pi" by (rule pi_gt_zero)
  consider "0 < x" | "x < 0" "0 \<le> y" | "x < 0" "y < 0" | "x = 0" by linarith
  then show ?thesis
  proof cases
    case 1
    then show ?thesis using b pos by (simp add: arctan2_def)
  next
    case 2
    then have "y / x \<le> 0" by (simp add: divide_nonneg_neg)
    then have "arctan (y / x) \<le> 0" by (simp add: arctan_le_zero_iff)
    then show ?thesis using 2 b pos by (simp add: arctan2_def)
  next
    case 3
    then have "0 < y / x" by (simp add: divide_neg_neg)
    then have "0 < arctan (y / x)" by (simp add: zero_less_arctan_iff)
    then show ?thesis using 3 b pos by (simp add: arctan2_def)
  next
    case 4
    consider "0 < y" | "y < 0" | "y = 0" by linarith
    then show ?thesis
    proof cases
      case 1
      then have "arctan2 y x = pi / 2" using 4 by (simp add: arctan2_def)
      then show ?thesis using pos by linarith
    next
      case 2
      then have "arctan2 y x = - (pi / 2)" using 4 by (simp add: arctan2_def)
      then show ?thesis using pos by linarith
    next
      case 3
      then have "arctan2 y x = 0" using 4 by (simp add: arctan2_def)
      then show ?thesis using pos by linarith
    qed
  qed
qed

lemma arctan2_polar:
  assumes "x \<noteq> 0 \<or> y \<noteq> 0"
  shows "sqrt (x\<^sup>2 + y\<^sup>2) * cos (arctan2 y x) = x \<and> sqrt (x\<^sup>2 + y\<^sup>2) * sin (arctan2 y x) = y"
proof (cases "x = 0")
  case True
  with assms have "y \<noteq> 0" by simp
  then show ?thesis using True by (auto simp: arctan2_def real_sqrt_abs abs_if)
next
  case False
  define t where "t = y / x"
  have r: "sqrt (x\<^sup>2 + y\<^sup>2) = \<bar>x\<bar> * sqrt (1 + t\<^sup>2)"
  proof -
    have "x\<^sup>2 + y\<^sup>2 = x\<^sup>2 * (1 + t\<^sup>2)"
      using False by (simp add: t_def field_simps power2_eq_square)
    then show ?thesis by (simp add: real_sqrt_mult real_sqrt_abs)
  qed
  have "0 \<le> t\<^sup>2" by simp
  then have "0 < 1 + t\<^sup>2" by linarith
  then have spos: "0 < sqrt (1 + t\<^sup>2)" by simp
  have c: "sqrt (1 + t\<^sup>2) * cos (arctan t) = 1"
    using spos by (simp add: cos_arctan)
  have s: "sqrt (1 + t\<^sup>2) * sin (arctan t) = t"
    using spos by (simp add: sin_arctan)
  have xt: "x * t = y" using False by (simp add: t_def)
  show ?thesis
  proof (cases "0 < x")
    case True
    then have a: "arctan2 y x = arctan t" by (simp add: arctan2_def t_def)
    have "\<bar>x\<bar> * sqrt (1 + t\<^sup>2) * cos (arctan t) = x * (sqrt (1 + t\<^sup>2) * cos (arctan t))"
      using True by simp
    moreover have "\<bar>x\<bar> * sqrt (1 + t\<^sup>2) * sin (arctan t) = x * (sqrt (1 + t\<^sup>2) * sin (arctan t))"
      using True by simp
    ultimately show ?thesis unfolding r a c s using xt by simp
  next
    case neg: False
    with False have xn: "x < 0" by simp
    have cs: "cos (arctan2 y x) = - cos (arctan t)" "sin (arctan2 y x) = - sin (arctan t)"
      using xn by (simp_all add: arctan2_def t_def)
    have "\<bar>x\<bar> * sqrt (1 + t\<^sup>2) * - cos (arctan t) = x * (sqrt (1 + t\<^sup>2) * cos (arctan t))"
      using xn by simp
    moreover have "\<bar>x\<bar> * sqrt (1 + t\<^sup>2) * - sin (arctan t) = x * (sqrt (1 + t\<^sup>2) * sin (arctan t))"
      using xn by simp
    ultimately show ?thesis unfolding r cs c s using xt by simp
  qed
qed


text \<open>
  Claim C6, as the code has it. The angle is \<open>degrees (arctan2 \<Delta>y \<Delta>x)\<close> with
  \<open>\<Delta> = right - left\<close>. For equal y-coordinates it is 0 when the right-eye point is not
  left of the left-eye point and 180 when it is; for equal x-coordinates it is 90 when
  the right-eye point has the larger y (lower in the image) and -90 when it has the
  smaller y.
\<close>

theorem eye_angle_axes:
  "eye_angle left_eye_center right_eye_center
     = degrees (arctan2 (of_int (snd right_eye_center - snd left_eye_center))
                        (of_int (fst right_eye_center - fst left_eye_center)))
   \<and> (snd right_eye_center = snd left_eye_center \<and> fst left_eye_center \<le> fst right_eye_center
        \<longrightarrow> eye_angle left_eye_center right_eye_center = 0)
   \<and> (snd right_eye_center = snd left_eye_center \<and> fst right_eye_center < fst left_eye_center
        \<longrightarrow> eye_angle left_eye_center right_eye_center = 180)
   \<and> (fst right_eye_center = fst left_eye_center \<and> snd left_eye_center < snd right_eye_center
        \<longrightarrow> eye_angle left_eye_center right_eye_center = 90)
   \<and> (fst right_eye_center = fst left_eye_center \<and> snd right_eye_center < snd left_eye_center
        \<longrightarrow> eye_angle left_eye_center right_eye_center = - 90)"
  by (simp add: eye_angle_def arctan2_axis degrees_pi)

theorem eye_angle_axes_witness:
  "eye_angle (100, 50) (160, 50) = 0 \<and> eye_angle (160, 50) (100, 50) = 180
   \<and> eye_angle (100, 50) (100, 90) = 90 \<and> eye_angle (100, 90) (100, 50) = - 90"
  using eye_angle_axes[of "(100, 50)" "(160, 50)"] eye_angle_axes[of "(160, 50)" "(100, 50)"]
        eye_angle_axes[of "(100, 50)" "(100, 90)"] eye_angle_axes[of "(100, 90)" "(100, 50)"]
  by simp


text \<open>
  Claim C6 as stated gives the angle 0 to every pair of points with equal y-coordinates.
  With the right-eye point left of the left-eye point the angle is 180.
\<close>

theorem eye_angle_level_counterexample:
  "snd (0 :: int, 0 :: int) = snd (10 :: int, 0 :: int) \<and> eye_angle (10, 0) (0, 0) = 180"
  by (simp add: eye_angle_def arctan2_def degrees_def)

subsection \<open>The scale\<close>

text \<open>Relative errors of chained roundings of non-negative quantities.\<close>

lemma unit_roundoff_bounds: "0 < unit_roundoff" "unit_roundoff < 1"
  by (simp_all add: unit_roundoff_def)

lemma fl_err_rel: "\<bar>fl x - x\<bar> \<le> \<bar>x\<bar> * unit_roundoff"
  using fl_err[of x] by (simp add: unit_roundoff_def)

lemma fl_rel_chain:
  assumes "0 \<le> lo" "lo \<le> x" "x \<le> hi"
  shows "lo * (1 - unit_roundoff) \<le> fl x \<and> fl x \<le> hi * (1 + unit_roundoff)"
proof -
  have x0: "0 \<le> x" using assms by linarith
  have "\<bar>fl x - x\<bar> \<le> x * unit_roundoff" using fl_err_rel[of x] x0 by simp
  then have e: "x - x * unit_roundoff \<le> fl x" "fl x \<le> x + x * unit_roundoff" by linarith+
  have "lo * (1 - unit_roundoff) \<le> x * (1 - unit_roundoff)"
    using assms(2) unit_roundoff_bounds by (intro mult_right_mono) simp_all
  also have "\<dots> = x - x * unit_roundoff" by (simp add: algebra_simps)
  finally have a: "lo * (1 - unit_roundoff) \<le> fl x" using e(1) by linarith
  have "x + x * unit_roundoff = x * (1 + unit_roundoff)" by (simp add: algebra_simps)
  also have "\<dots> \<le> hi * (1 + unit_roundoff)"
    using assms(3) unit_roundoff_bounds by (intro mult_right_mono) simp_all
  finally have b: "fl x \<le> hi * (1 + unit_roundoff)" using e(2) by linarith
  from a b show ?thesis ..
qed

lemma roundoff_cubed:
  "1 - 1 / 2 ^ 51 \<le> (1 - unit_roundoff) * (1 - unit_roundoff) * (1 - unit_roundoff)"
  "(1 + unit_roundoff) * (1 + unit_roundoff) * (1 + unit_roundoff) \<le> 1 + 1 / 2 ^ 51"
  by (simp_all add: unit_roundoff_def)

lemma scale_error:
  fixes d w :: real
  assumes d: "0 \<le> d" and w: "0 < w"
  shows "d * 2.5 / w * (1 - 1 / 2 ^ 51) \<le> fl (fl (fl d * 2.5) / w)
       \<and> fl (fl (fl d * 2.5) / w) \<le> d * 2.5 / w * (1 + 1 / 2 ^ 51)"
proof -
  define um :: real where "um = 1 - unit_roundoff"
  define up :: real where "up = 1 + unit_roundoff"
  have um: "0 \<le> um" and up: "0 \<le> up" using unit_roundoff_bounds by (simp_all add: um_def up_def)
  have s1: "d * um \<le> fl d \<and> fl d \<le> d * up"
    unfolding um_def up_def using d by (intro fl_rel_chain) simp_all
  have p1: "0 \<le> d * um * 2.5" using d um by simp
  have l1: "d * um * 2.5 \<le> fl d * 2.5"
    by (rule mult_right_mono[OF conjunct1[OF s1]]) simp
  have h1: "fl d * 2.5 \<le> d * up * 2.5"
    by (rule mult_right_mono[OF conjunct2[OF s1]]) simp
  have s2: "d * um * 2.5 * um \<le> fl (fl d * 2.5) \<and> fl (fl d * 2.5) \<le> d * up * 2.5 * up"
    unfolding um_def up_def using p1 l1 h1 unfolding um_def up_def by (rule fl_rel_chain)
  have p2: "0 \<le> d * um * 2.5 * um / w" using d um w by simp
  have w0: "0 \<le> w" using w by simp
  have l2: "d * um * 2.5 * um / w \<le> fl (fl d * 2.5) / w"
    by (rule divide_right_mono[OF conjunct1[OF s2] w0])
  have h2: "fl (fl d * 2.5) / w \<le> d * up * 2.5 * up / w"
    by (rule divide_right_mono[OF conjunct2[OF s2] w0])
  have s3: "d * um * 2.5 * um / w * um \<le> fl (fl (fl d * 2.5) / w)
            \<and> fl (fl (fl d * 2.5) / w) \<le> d * up * 2.5 * up / w * up"
    unfolding um_def up_def using p2 l2 h2 unfolding um_def up_def by (rule fl_rel_chain)
  define E where "E = d * 2.5 / w"
  have E: "0 \<le> E" using d w by (simp add: E_def)
  have lo: "d * um * 2.5 * um / w * um = E * (um * um * um)" by (simp add: E_def)
  have hi: "d * up * 2.5 * up / w * up = E * (up * up * up)" by (simp add: E_def)
  have "1 - 1 / 2 ^ 51 \<le> um * um * um" unfolding um_def by (rule roundoff_cubed)
  then have a: "E * (1 - 1 / 2 ^ 51) \<le> E * (um * um * um)" using E by (rule mult_left_mono)
  have "up * up * up \<le> 1 + 1 / 2 ^ 51" unfolding up_def by (rule roundoff_cubed)
  then have b: "E * (up * up * up) \<le> E * (1 + 1 / 2 ^ 51)" using E by (rule mult_left_mono)
  from s3 a b show ?thesis unfolding lo hi E_def by linarith
qed

lemma fl_five_eighths: "fl (5 / 8) = 5 / 8"
  by code_simp

lemma sqrt_2500: "sqrt 2500 = 50"
  by (rule real_sqrt_unique) simp_all


text \<open>
  Claim C5. For a positive overlay width the scale is the float64 value of
  \<open>(sqrt (\<Delta>x\<^sup>2 + \<Delta>y\<^sup>2) * 2.5) / width\<close>; for coordinates and widths below \<open>2\<^sup>5\<^sup>3\<close> it lies
  within the relative distance \<open>2\<^sup>-\<^sup>5\<^sup>1\<close> of the real value of that expression; for a
  distance of 50 pixels and a width of 200 it is exactly 0.625.
\<close>

theorem sunglasses_scale_formula:
  "(0 < w \<longrightarrow>
      sunglasses_scale l r w
        = Some (fdiv (fmul (fsqrt (float_of_int ((fst r - fst l)\<^sup>2 + (snd r - snd l)\<^sup>2))) 2.5)
                     (float_of_int (int w))))
   \<and> (0 < w \<and> w < 2 ^ 53 \<and> (fst r - fst l)\<^sup>2 + (snd r - snd l)\<^sup>2 < 2 ^ 53 \<longrightarrow>
        (\<exists>scale. sunglasses_scale l r w = Some scale
           \<and> sqrt (of_int ((fst r - fst l)\<^sup>2 + (snd r - snd l)\<^sup>2)) * 2.5 / real w * (1 - 1 / 2 ^ 51)
               \<le> scale
           \<and> scale
               \<le> sqrt (of_int ((fst r - fst l)\<^sup>2 + (snd r - snd l)\<^sup>2)) * 2.5 / real w * (1 + 1 / 2 ^ 51)))
   \<and> ((fst r - fst l)\<^sup>2 + (snd r - snd l)\<^sup>2 = 2500 \<and> w = 200 \<longrightarrow>
        sunglasses_scale l r w = Some 0.625)"
proof -
  define n where "n = (fst r - fst l)\<^sup>2 + (snd r - snd l)\<^sup>2"
  have n0: "0 \<le> n" by (simp add: n_def)
  have p1: "sunglasses_scale l r w
        = Some (fdiv (fmul (fsqrt (float_of_int n)) 2.5) (float_of_int (int w)))" if "0 < w"
    using that by (simp add: sunglasses_scale_def eye_distance_def n_def)
  have p2: "\<exists>scale. sunglasses_scale l r w = Some scale
           \<and> sqrt (of_int n) * 2.5 / real w * (1 - 1 / 2 ^ 51) \<le> scale
           \<and> scale \<le> sqrt (of_int n) * 2.5 / real w * (1 + 1 / 2 ^ 51)"
    if h: "0 < w \<and> w < 2 ^ 53 \<and> n < 2 ^ 53"
  proof -
    have "\<bar>n\<bar> < 2 ^ 53" using h n0 by simp
    then have fn: "float_of_int n = of_int n" unfolding float_of_int_def by (rule fl_of_int_small)
    have "\<bar>int w\<bar> < 2 ^ 53" using h by simp
    then have "float_of_int (int w) = of_int (int w)"
      unfolding float_of_int_def by (rule fl_of_int_small)
    then have fw: "float_of_int (int w) = real w" by simp
    have eq: "sunglasses_scale l r w = Some (fl (fl (fl (sqrt (of_int n)) * 2.5) / real w))"
      using h by (simp only: p1 fdiv_def fmul_def fsqrt_def fn fw)
    have "0 \<le> sqrt (real_of_int n)" using n0 by simp
    moreover have "0 < real w" using h by simp
    ultimately show ?thesis unfolding eq using scale_error by blast
  qed
  have p3: "sunglasses_scale l r w = Some 0.625" if h: "n = 2500 \<and> w = 200"
  proof -
    have fn: "float_of_int 2500 = 2500"
      using fl_of_int_small[of 2500] by (simp add: float_of_int_def)
    have fw: "float_of_int 200 = 200"
      using fl_of_int_small[of 200] by (simp add: float_of_int_def)
    have f50: "fl 50 = 50" using fl_of_int_small[of 50] by simp
    have f125: "fl 125 = 125" using fl_of_int_small[of 125] by simp
    have "fdiv (fmul (fsqrt (float_of_int 2500)) 2.5) (float_of_int (int 200)) = 0.625"
      by (simp add: fdiv_def fmul_def fsqrt_def fn fw sqrt_2500 f50 f125 fl_five_eighths)
    then show ?thesis using h p1[of] by simp
  qed
  from p1 p2 p3 show ?thesis unfolding n_def by blast
qed

theorem sunglasses_scale_formula_witness:
  "sunglasses_scale (100, 120) (130, 160) 200 = Some 0.625
   \<and> sunglasses_scale (100, 120) (150, 120) 200 = Some 0.625"
  using sunglasses_scale_formula[of 200 "(100, 120)" "(130, 160)", THEN conjunct2, THEN conjunct2]
        sunglasses_scale_formula[of 200 "(100, 120)" "(150, 120)", THEN conjunct2, THEN conjunct2]
  by simp

subsection \<open>The canvas of the rotated overlay\<close>



























end
